theory Spec2Isabelle
  imports Main "HOL-Library.AList" "HOL-Library.Multiset"
begin

unbundle bit_operations_syntax

text \<open>
  CommiTect turns a git diff into a commit suggestion, an intent and a message. This theory
  embeds the part of the program that decides what a call returns:
  \<^item> the result cache of \<open>utils/cache.ts\<close>, a map from digests to entries with a 30-day
    expiry, kept in memory and written to one file;
  \<^item> the remote client: one request per attempt, at most three attempts, and the \<open>catch\<close>
    block that decides whether the next attempt is made;
  \<^item> the heuristic classifier that stands in for the remote service: \<open>analyzeDiff\<close>,
    \<open>determineIntent\<close>, \<open>generateMessage\<close>;
  \<^item> the orchestrator \<open>generateCommitMessage\<close>, in two of the versions the repository holds:
    the one with the heuristic fallback and a \<open>summary\<close> parameter, and the one of
    \<open>services/llm.ts\<close>, which throws where the other falls back.

  The functions are pure functions of their arguments and of the state they touch, which
  is passed in and returned: the cache, the cache file, the clock values read and the way
  each request to the endpoint ends. Exceptions are values of a sum type. Console output
  is not modelled.
\<close>

section \<open>Strings\<close>

text \<open>
  A JavaScript string is a sequence of UTF-16 code units and \<open>length\<close> counts them. The
  model uses \<^typ>\<open>string\<close>, whose characters are the code units below 256 (ASCII and the
  Latin-1 supplement); the length of a modelled string is the JavaScript length of the
  string it stands for.
\<close>

definition newline :: char where
  "newline = CHR 0x0A"

definition carriage_return :: char where
  "carriage_return = CHR 0x0D"

text \<open>The code units below 256 that JavaScript counts as WhiteSpace or LineTerminator:
  TAB, LF, VT, FF, CR, SP and NBSP. These are what \<open>String.prototype.trim\<close> strips and what
  \<open>\s\<close> matches.\<close>

definition isWhiteSpace :: "char \<Rightarrow> bool" where
  "isWhiteSpace c = (c \<in> set [CHR 0x09, CHR 0x0A, CHR 0x0B, CHR 0x0C, CHR 0x0D, CHR 0x20, CHR 0xA0])"

definition isLineTerminator :: "char \<Rightarrow> bool" where
  "isLineTerminator c = (c = newline \<or> c = carriage_return)"

text \<open>\<open>s.trim()\<close>\<close>

definition trim :: "string \<Rightarrow> string" where
  "trim s = rev (dropWhile isWhiteSpace (rev (dropWhile isWhiteSpace s)))"

text \<open>\<open>s.startsWith(p)\<close>\<close>

definition startsWith :: "string \<Rightarrow> string \<Rightarrow> bool" where
  "startsWith s p = (take (length p) s = p)"

text \<open>\<open>s.split(c)\<close> for a one-character separator: the pieces between the separators, the
  empty string giving one empty piece.\<close>

fun split_acc :: "char \<Rightarrow> string \<Rightarrow> string \<Rightarrow> string list" where
  "split_acc sep cur [] = [rev cur]"
| "split_acc sep cur (c # cs) =
     (if c = sep then rev cur # split_acc sep [] cs else split_acc sep (c # cur) cs)"

definition split_on :: "char \<Rightarrow> string \<Rightarrow> string list" where
  "split_on sep s = split_acc sep [] s"

text \<open>\<open>s.replace(pat, rep)\<close> with a string pattern: the first occurrence only.\<close>

fun replace_first :: "string \<Rightarrow> string \<Rightarrow> string \<Rightarrow> string" where
  "replace_first pat rep [] = (if pat = [] then rep else [])"
| "replace_first pat rep (c # cs) =
     (if startsWith (c # cs) pat then rep @ drop (length pat) (c # cs)
      else c # replace_first pat rep cs)"

text \<open>The decimal rendering of a non-negative integer, as a template literal
  \<open>`${n}`\<close> renders a number that is a safe integer.\<close>

definition digit_char :: "nat \<Rightarrow> char" where
  "digit_char d = ''0123456789'' ! (d mod 10)"

fun show_nat :: "nat \<Rightarrow> string" where
  "show_nat n = (if n < 10 then [digit_char n] else show_nat (n div 10) @ [digit_char (n mod 10)])"

declare show_nat.simps [simp del]

definition MAX_SAFE_INTEGER :: int where
  "MAX_SAFE_INTEGER = 9007199254740991"

section \<open>Digests\<close>

text \<open>
  \<open>crypto.createHash(alg).update(s).digest('hex')\<close> comes from the Node.js runtime. The two
  algorithms the program uses, SHA-1 and SHA-256, are written out after FIPS 180-4 over
  32-bit words, kept as integers with the reduction modulo \<open>2 ^ 32\<close> explicit. \<open>update\<close>
  hashes the UTF-8 encoding of the string.
\<close>

definition utf8 :: "string \<Rightarrow> int list" where
  "utf8 s = concat (map (\<lambda>c. let u = of_char c :: int in
       if u < 128 then [u] else [192 + u div 64, 128 + u mod 64]) s)"

definition m32 :: "int \<Rightarrow> int" where
  "m32 x = x mod 4294967296"

definition rotr :: "nat \<Rightarrow> int \<Rightarrow> int" where
  "rotr n w = (w div 2 ^ n) OR m32 (w * 2 ^ (32 - n))"

definition rotl :: "nat \<Rightarrow> int \<Rightarrow> int" where
  "rotl n w = m32 (w * 2 ^ n) OR (w div 2 ^ (32 - n))"

definition ch :: "int \<Rightarrow> int \<Rightarrow> int \<Rightarrow> int" where
  "ch x y z = (x AND y) XOR ((4294967295 - x) AND z)"

definition maj :: "int \<Rightarrow> int \<Rightarrow> int \<Rightarrow> int" where
  "maj x y z = (x AND y) XOR (x AND z) XOR (y AND z)"

definition parity :: "int \<Rightarrow> int \<Rightarrow> int \<Rightarrow> int" where
  "parity x y z = x XOR y XOR z"

fun be32 :: "int list \<Rightarrow> int list" where
  "be32 (a # b # c # d # r) = (((a * 256 + b) * 256 + c) * 256 + d) # be32 r"
| "be32 _ = []"

fun be_bytes :: "nat \<Rightarrow> nat \<Rightarrow> int list" where
  "be_bytes 0 n = []"
| "be_bytes (Suc k) n = be_bytes k (n div 256) @ [int (n mod 256)]"

definition pad :: "int list \<Rightarrow> int list" where
  "pad m = m @ [128] @ replicate ((119 - length m mod 64) mod 64) 0 @ be_bytes 8 (8 * length m)"

fun blocks :: "nat \<Rightarrow> int list \<Rightarrow> int list list" where
  "blocks 0 m = []"
| "blocks (Suc n) m = take 64 m # blocks n (drop 64 m)"

definition hex_char :: "nat \<Rightarrow> char" where
  "hex_char n = ''0123456789abcdef'' ! (n mod 16)"

definition hex32 :: "int \<Rightarrow> string" where
  "hex32 w = map (\<lambda>i. hex_char (nat ((w div 16 ^ i) mod 16))) [7, 6, 5, 4, 3, 2, 1, 0]"

subsection \<open>SHA-256\<close>

text \<open>The round constants and the initial hash value, as decimal numerals.\<close>

definition K256 :: "int list" where
  "K256 = [
     1116352408, 1899447441, 3049323471, 3921009573, 961987163, 1508970993,
     2453635748, 2870763221, 3624381080, 310598401, 607225278, 1426881987,
     1925078388, 2162078206, 2614888103, 3248222580, 3835390401, 4022224774,
     264347078, 604807628, 770255983, 1249150122, 1555081692, 1996064986,
     2554220882, 2821834349, 2952996808, 3210313671, 3336571891, 3584528711,
     113926993, 338241895, 666307205, 773529912, 1294757372, 1396182291,
     1695183700, 1986661051, 2177026350, 2456956037, 2730485921, 2820302411,
     3259730800, 3345764771, 3516065817, 3600352804, 4094571909, 275423344,
     430227734, 506948616, 659060556, 883997877, 958139571, 1322822218,
     1537002063, 1747873779, 1955562222, 2024104815, 2227730452, 2361852424,
     2428436474, 2756734187, 3204031479, 3329325298]"

definition H256 :: "int list" where
  "H256 = [1779033703, 3144134277, 1013904242, 2773480762,
           1359893119, 2600822924, 528734635, 1541459225]"

definition ssig0 :: "int \<Rightarrow> int" where
  "ssig0 x = rotr 7 x XOR rotr 18 x XOR (x div 2 ^ 3)"

definition ssig1 :: "int \<Rightarrow> int" where
  "ssig1 x = rotr 17 x XOR rotr 19 x XOR (x div 2 ^ 10)"

definition bsig0 :: "int \<Rightarrow> int" where
  "bsig0 x = rotr 2 x XOR rotr 13 x XOR rotr 22 x"

definition bsig1 :: "int \<Rightarrow> int" where
  "bsig1 x = rotr 6 x XOR rotr 11 x XOR rotr 25 x"

fun sched256 :: "nat \<Rightarrow> int list \<Rightarrow> int list" where
  "sched256 0 ws = ws"
| "sched256 (Suc n) ws = (let l = length ws in
     sched256 n (ws @ [m32 (ssig1 (ws ! (l - 2)) + ws ! (l - 7) + ssig0 (ws ! (l - 15)) + ws ! (l - 16))]))"

fun round256 :: "int list \<Rightarrow> (int \<times> int) \<Rightarrow> int list" where
  "round256 [a, b, c, d, e, f, g, h] (k, w) =
     (let t1 = h + bsig1 e + ch e f g + k + w; t2 = bsig0 a + maj a b c
      in [m32 (t1 + t2), a, b, c, m32 (d + t1), e, f, g])"
| "round256 s _ = s"

definition compress256 :: "int list \<Rightarrow> int list \<Rightarrow> int list" where
  "compress256 h blk =
     map m32 (map2 (+) h (foldl round256 h (zip K256 (sched256 48 (be32 blk)))))"

definition sha256 :: "int list \<Rightarrow> int list" where
  "sha256 m = (let p = pad m in foldl compress256 H256 (blocks (length p div 64) p))"

definition sha256_hex :: "string \<Rightarrow> string" where
  "sha256_hex s = concat (map hex32 (sha256 (utf8 s)))"

subsection \<open>SHA-1\<close>

definition H1 :: "int list" where
  "H1 = [1732584193, 4023233417, 2562383102, 271733878, 3285377520]"

fun sched1 :: "nat \<Rightarrow> int list \<Rightarrow> int list" where
  "sched1 0 ws = ws"
| "sched1 (Suc n) ws = (let l = length ws in
     sched1 n (ws @ [rotl 1 (ws ! (l - 3) XOR ws ! (l - 8) XOR ws ! (l - 14) XOR ws ! (l - 16))]))"

definition f1 :: "nat \<Rightarrow> int \<Rightarrow> int \<Rightarrow> int \<Rightarrow> int" where
  "f1 t b c d = (if t < 20 then ch b c d else if t < 40 then parity b c d
                 else if t < 60 then maj b c d else parity b c d)"

definition k1 :: "nat \<Rightarrow> int" where
  "k1 t = (if t < 20 then 1518500249 else if t < 40 then 1859775393
           else if t < 60 then 2400959708 else 3395469782)"

fun round1 :: "int list \<Rightarrow> (nat \<times> int) \<Rightarrow> int list" where
  "round1 [a, b, c, d, e] (t, w) =
     [m32 (rotl 5 a + f1 t b c d + e + k1 t + w), a, rotl 30 b, c, d]"
| "round1 s _ = s"

definition compress1 :: "int list \<Rightarrow> int list \<Rightarrow> int list" where
  "compress1 h blk =
     map m32 (map2 (+) h (foldl round1 h (zip [0..<80] (sched1 64 (be32 blk)))))"

definition sha1 :: "int list \<Rightarrow> int list" where
  "sha1 m = (let p = pad m in foldl compress1 H1 (blocks (length p div 64) p))"

definition sha1_hex :: "string \<Rightarrow> string" where
  "sha1_hex s = concat (map hex32 (sha1 (utf8 s)))"

section \<open>Regular expressions\<close>

text \<open>
  The heuristic classifier recognises its signals with JavaScript regular expressions. The
  fragment it uses is modelled by a backtracking matcher that lists, in the order in which
  the JavaScript matcher tries them, the positions at which a match of a pattern that
  starts at a given position can end. A position is the remaining input together with the
  character before it, which the assertions \<open>\b\<close> and \<open>^\<close> look at.
\<close>

record rx_flags =
  ignoreCase :: bool
  multiline :: bool

datatype rx =
    REps
  | RLit string
  | RDot
  | RSpace
  | RWord
  | RRange char char
  | ROneOf string
  | RSeq rx rx
  | RAlt rx rx
  | ROpt rx
  | RStar rx
  | RPlus rx
  | RLazyPlus rx
  | RBol
  | REol
  | RWordB

type_synonym pos = "char option \<times> string"

text \<open>\<open>\w\<close> is \<open>[A-Za-z0-9_]\<close>.\<close>

definition isWordChar :: "char \<Rightarrow> bool" where
  "isWordChar c = (let u = of_char c :: nat in
     (65 \<le> u \<and> u \<le> 90) \<or> (97 \<le> u \<and> u \<le> 122) \<or> (48 \<le> u \<and> u \<le> 57) \<or> u = 95)"

text \<open>Under the \<open>i\<close> flag characters are compared after upper-casing. Every pattern of
  the program is ASCII, and no character outside ASCII is canonicalised to an ASCII one, so
  only the ASCII letters are folded.\<close>

definition canonicalize :: "rx_flags \<Rightarrow> char \<Rightarrow> char" where
  "canonicalize fl c = (let u = of_char c :: nat in
     if ignoreCase fl \<and> 97 \<le> u \<and> u \<le> 122 then char_of (u - 32) else c)"

fun step_char :: "(char \<Rightarrow> bool) \<Rightarrow> pos \<Rightarrow> pos list" where
  "step_char P (prev, []) = []"
| "step_char P (prev, c # cs) = (if P c then [(Some c, cs)] else [])"

fun lit_ends :: "rx_flags \<Rightarrow> string \<Rightarrow> pos \<Rightarrow> pos list" where
  "lit_ends fl [] p = [p]"
| "lit_ends fl (k # ks) (prev, []) = []"
| "lit_ends fl (k # ks) (prev, c # cs) =
     (if canonicalize fl c = canonicalize fl k then lit_ends fl ks (Some c, cs) else [])"

text \<open>An iteration of a quantifier that consumes nothing is not tried again, so every
  further iteration moves forward and the length of the remaining input bounds their
  number.\<close>

definition advanced :: "pos \<Rightarrow> pos \<Rightarrow> bool" where
  "advanced p q = (length (snd q) < length (snd p))"

fun star_ends :: "(pos \<Rightarrow> pos list) \<Rightarrow> nat \<Rightarrow> pos \<Rightarrow> pos list" where
  "star_ends f 0 p = [p]"
| "star_ends f (Suc n) p = concat (map (star_ends f n) (filter (advanced p) (f p))) @ [p]"

fun lazy_ends :: "(pos \<Rightarrow> pos list) \<Rightarrow> nat \<Rightarrow> pos \<Rightarrow> pos list" where
  "lazy_ends f 0 p = [p]"
| "lazy_ends f (Suc n) p = p # concat (map (lazy_ends f n) (filter (advanced p) (f p)))"

definition at_word_boundary :: "pos \<Rightarrow> bool" where
  "at_word_boundary p =
     ((case fst p of None \<Rightarrow> False | Some c \<Rightarrow> isWordChar c) \<noteq>
      (case snd p of [] \<Rightarrow> False | c # cs \<Rightarrow> isWordChar c))"

definition at_line_start :: "rx_flags \<Rightarrow> pos \<Rightarrow> bool" where
  "at_line_start fl p =
     (case fst p of None \<Rightarrow> True | Some c \<Rightarrow> multiline fl \<and> isLineTerminator c)"

definition at_line_end :: "rx_flags \<Rightarrow> pos \<Rightarrow> bool" where
  "at_line_end fl p =
     (case snd p of [] \<Rightarrow> True | c # cs \<Rightarrow> multiline fl \<and> isLineTerminator c)"

fun rx_ends :: "rx_flags \<Rightarrow> rx \<Rightarrow> pos \<Rightarrow> pos list" where
  "rx_ends fl REps p = [p]"
| "rx_ends fl (RLit s) p = lit_ends fl s p"
| "rx_ends fl RDot p = step_char (\<lambda>c. \<not> isLineTerminator c) p"
| "rx_ends fl RSpace p = step_char isWhiteSpace p"
| "rx_ends fl RWord p = step_char isWordChar p"
| "rx_ends fl (RRange lo hi) p =
     step_char (\<lambda>c. list_ex (\<lambda>m. canonicalize fl (char_of m) = canonicalize fl c)
                       [of_char lo ..< Suc (of_char hi)]) p"
| "rx_ends fl (ROneOf ms) p =
     step_char (\<lambda>c. list_ex (\<lambda>m. canonicalize fl m = canonicalize fl c) ms) p"
| "rx_ends fl (RSeq a b) p = concat (map (rx_ends fl b) (rx_ends fl a p))"
| "rx_ends fl (RAlt a b) p = rx_ends fl a p @ rx_ends fl b p"
| "rx_ends fl (ROpt a) p = rx_ends fl a p @ [p]"
| "rx_ends fl (RStar a) p = star_ends (rx_ends fl a) (length (snd p)) p"
| "rx_ends fl (RPlus a) p =
     concat (map (\<lambda>q. star_ends (rx_ends fl a) (length (snd q)) q) (rx_ends fl a p))"
| "rx_ends fl (RLazyPlus a) p =
     concat (map (\<lambda>q. lazy_ends (rx_ends fl a) (length (snd q)) q) (rx_ends fl a p))"
| "rx_ends fl RBol p = (if at_line_start fl p then [p] else [])"
| "rx_ends fl REol p = (if at_line_end fl p then [p] else [])"
| "rx_ends fl RWordB p = (if at_word_boundary p then [p] else [])"

fun positions :: "char option \<Rightarrow> string \<Rightarrow> pos list" where
  "positions prev [] = [(prev, [])]"
| "positions prev (c # cs) = (prev, c # cs) # positions (Some c) cs"

text \<open>\<open>re.test(s)\<close> for a pattern without the \<open>g\<close> flag: some position of \<open>s\<close> starts a
  match.\<close>

definition rx_test :: "rx_flags \<Rightarrow> rx \<Rightarrow> string \<Rightarrow> bool" where
  "rx_test fl r s = list_ex (\<lambda>p. rx_ends fl r p \<noteq> []) (positions None s)"

definition seqs :: "rx list \<Rightarrow> rx" where
  "seqs rs = foldr RSeq rs REps"

definition alts :: "rx list \<Rightarrow> rx" where
  "alts rs = foldr RAlt (butlast rs) (last rs)"

definition no_flags :: rx_flags where
  "no_flags = \<lparr>ignoreCase = False, multiline = False\<rparr>"

definition flag_i :: rx_flags where
  "flag_i = \<lparr>ignoreCase = True, multiline = False\<rparr>"

definition flag_m :: rx_flags where
  "flag_m = \<lparr>ignoreCase = False, multiline = True\<rparr>"

section \<open>The result cache (\<open>utils/cache.ts\<close>)\<close>

text \<open>
  \<open>interface CommitSuggestion { intent; message }\<close> is the declared result of the pipeline,
  \<open>{ intent; message; folder }\<close> is the object \<open>CommitCache.get\<close> returns, and
  \<open>interface CacheEntry { hash; intent; message; timestamp; folder }\<close> is what the cache
  stores. Each has the fields of the one before, which the records say by extension, so
  that \<open>intent\<close> and \<open>message\<close> read all three.
\<close>

record CommitSuggestion =
  intent :: string
  message :: string

record CachedSuggestion = CommitSuggestion +
  folder :: string

record CacheEntry = CachedSuggestion +
  hash :: string
  timestamp :: int

definition CACHE_MAX_AGE :: int where
  "CACHE_MAX_AGE = 30 * 24 * 60 * 60 * 1000"

text \<open>The file \<open>~/.commitect/cache.json\<close>: absent, present with contents that
  \<open>JSON.parse\<close> and the loop over the entries reject, or a JSON array of entries.\<close>

datatype cache_file = NoFile | Unparsable | Entries "CacheEntry list"

text \<open>
  The singleton \<open>commitCache\<close> and the part of the world it touches. \<open>cache\<close> is the
  \<open>Map\<close>, kept as an association list in insertion order (the order \<open>values()\<close> iterates
  in); \<open>disk\<close> is the cache file; \<open>writable\<close> says whether \<open>mkdirSync\<close> and
  \<open>writeFileSync\<close> succeed; \<open>cwd_name\<close> is \<open>basename(process.cwd())\<close>. The clock is not
  part of the state: every operation that calls \<open>Date.now()\<close> takes the value read.
\<close>

record cache_state =
  cache :: "(string \<times> CacheEntry) list"
  disk :: cache_file
  writable :: bool
  cwd_name :: string

definition hashDiff :: "string \<Rightarrow> string" where
  "hashDiff diff = sha256_hex (trim diff)"

definition getCurrentFolder :: "cache_state \<Rightarrow> string" where
  "getCurrentFolder st = cwd_name st"

text \<open>\<open>saveCache\<close> catches a failed write and only warns.\<close>

definition saveCache :: "cache_state \<Rightarrow> cache_state" where
  "saveCache st = (if writable st then st\<lparr>disk := Entries (map snd (cache st))\<rparr> else st)"

definition loadCache :: "int \<Rightarrow> cache_state \<Rightarrow> cache_state" where
  "loadCache now st =
     (case disk st of
        NoFile \<Rightarrow> st
      | Unparsable \<Rightarrow> st\<lparr>cache := []\<rparr>
      | Entries entries \<Rightarrow>
          st\<lparr>cache := fold (\<lambda>entry c. if now - timestamp entry < CACHE_MAX_AGE
                                       then AList.update (hash entry) entry c else c)
                             entries (cache st)\<rparr>)"

text \<open>\<open>new CommitCache()\<close>, run once when the module is loaded.\<close>

definition new_CommitCache :: "int \<Rightarrow> cache_file \<Rightarrow> bool \<Rightarrow> string \<Rightarrow> cache_state" where
  "new_CommitCache now on_disk w dir =
     loadCache now \<lparr>cache = [], disk = on_disk, writable = w, cwd_name = dir\<rparr>"

definition CommitCache_get :: "int \<Rightarrow> string \<Rightarrow> cache_state \<Rightarrow> CachedSuggestion option \<times> cache_state" where
  "CommitCache_get now diff st =
     (let h = hashDiff diff in
      case map_of (cache st) h of
        None \<Rightarrow> (None, st)
      | Some entry \<Rightarrow>
          if now - timestamp entry > CACHE_MAX_AGE
          then (None, saveCache (st\<lparr>cache := AList.delete h (cache st)\<rparr>))
          else (Some \<lparr>intent = intent entry, message = message entry, folder = folder entry\<rparr>, st))"

definition CommitCache_set :: "int \<Rightarrow> string \<Rightarrow> string \<Rightarrow> string \<Rightarrow> cache_state \<Rightarrow> cache_state" where
  "CommitCache_set now diff i m st =
     (let h = hashDiff diff in
      saveCache (st\<lparr>cache := AList.update h
        \<lparr>intent = i, message = m, folder = getCurrentFolder st, hash = h, timestamp = now\<rparr>
        (cache st)\<rparr>))"

text \<open>What a call evaluates to in JavaScript when the function is declared \<open>void\<close>, next to
  the number a caller might expect instead.\<close>

datatype js_value = Undefined | Number int

text \<open>\<open>clear(): void\<close>\<close>

definition CommitCache_clear :: "cache_state \<Rightarrow> js_value \<times> cache_state" where
  "CommitCache_clear st = (Undefined, saveCache (st\<lparr>cache := []\<rparr>))"

record cache_stats =
  size_stat :: nat
  oldestEntry :: "int option"

definition getStats :: "cache_state \<Rightarrow> cache_stats" where
  "getStats st =
     (let entries = map snd (cache st) in
      \<lparr>size_stat = length (cache st),
       oldestEntry = (case map timestamp entries of [] \<Rightarrow> None | t # ts \<Rightarrow> Some (fold min ts t))\<rparr>)"

text \<open>\<open>entries.sort((a, b) => b.timestamp - a.timestamp)\<close>: a stable sort, newest first.\<close>

definition getHistory :: "cache_state \<Rightarrow> CacheEntry list" where
  "getHistory st = sort_key (\<lambda>e. - timestamp e) (map snd (cache st))"

definition getHistoryByFolder :: "string \<Rightarrow> cache_state \<Rightarrow> CacheEntry list" where
  "getHistoryByFolder dir st =
     sort_key (\<lambda>e. - timestamp e) (filter (\<lambda>entry. folder entry = dir) (map snd (cache st)))"

subsection \<open>\<open>commands/clear-cache.ts\<close>\<close>

datatype clear_report = AlreadyEmpty | Cleared nat

definition clearCacheCommand :: "cache_state \<Rightarrow> clear_report \<times> cache_state" where
  "clearCacheCommand st =
     (let stats = getStats st in
      if size_stat stats = 0 then (AlreadyEmpty, st)
      else (Cleared (size_stat stats), snd (CommitCache_clear st)))"

section \<open>The remote classifier\<close>

text \<open>
  What a rejected promise or a \<open>throw\<close> carries. \<open>AxiosError status code\<close> is an error for
  which \<open>axios.isAxiosError\<close> holds, with \<open>error.response?.status\<close> and \<open>error.code\<close>
  (\<open>None\<close> where the property is undefined); \<open>Error msg\<close> is any other error.
\<close>

datatype error = Error string | AxiosError "nat option" "string option"

text \<open>\<open>response.data\<close>: a falsy value, or an object with its \<open>intent\<close> property
  (\<open>None\<close> when the property is missing).\<close>

datatype response_data = NoData | Data "string option"

text \<open>How one \<open>await axios.post(...)\<close> ends.\<close>

datatype attempt_outcome = Resolved response_data | Rejected error

fun parse_lines :: "string list \<Rightarrow> string \<times> string \<Rightarrow> string \<times> string" where
  "parse_lines [] (i, m) = (i, m)"
| "parse_lines (line # lines) (i, m) =
     (if startsWith line ''Intent:'' then parse_lines lines (trim (replace_first ''Intent:'' [] line), m)
      else if startsWith line ''Message:'' then parse_lines lines (i, trim (replace_first ''Message:'' [] line))
      else parse_lines lines (i, m))"

definition parseResponse :: "string \<Rightarrow> error + CommitSuggestion" where
  "parseResponse response =
     (let lines = split_on newline (trim response);
          (i, m) = parse_lines lines ([], [])
      in if i = [] \<or> m = [] then Inl (Error ''Invalid response format from LLM'')
         else Inr \<lparr>intent = i,
                   message = (if length m > 70 then take 67 m @ ''...'' else m)\<rparr>)"

text \<open>The \<open>try\<close> block up to the parsed result: the request, the check of the body and
  \<open>parseResponse\<close>.\<close>

definition request_result :: "attempt_outcome \<Rightarrow> error + CommitSuggestion" where
  "request_result out =
     (case out of
        Rejected e \<Rightarrow> Inl e
      | Resolved NoData \<Rightarrow> Inl (Error ''Invalid response format from API'')
      | Resolved (Data None) \<Rightarrow> Inl (Error ''Invalid response format from API'')
      | Resolved (Data (Some s)) \<Rightarrow>
          if s = [] then Inl (Error ''Invalid response format from API'') else parseResponse s)"

definition maxRetries :: nat where
  "maxRetries = 3"

definition isAxiosError :: "error \<Rightarrow> bool" where
  "isAxiosError e = (case e of AxiosError status code \<Rightarrow> True | Error msg \<Rightarrow> False)"

definition response_status :: "error \<Rightarrow> nat option" where
  "response_status e = (case e of AxiosError status code \<Rightarrow> status | Error msg \<Rightarrow> None)"

definition error_code :: "error \<Rightarrow> string option" where
  "error_code e = (case e of AxiosError status code \<Rightarrow> code | Error msg \<Rightarrow> None)"

text \<open>How the \<open>catch\<close> block of one attempt leaves the loop body: \<open>Continue ms\<close> after
  \<open>await sleep(ms)\<close>, \<open>Break\<close>, or by reaching the end of the block.\<close>

datatype catch_action = Continue nat | Break | FallThrough

definition on_error :: "nat \<Rightarrow> error \<Rightarrow> catch_action" where
  "on_error attempt e =
     (if isAxiosError e \<and> response_status e = Some 429 then
        (if attempt < maxRetries then Continue (500 * 2 ^ attempt) else Break)
      else if isAxiosError e
              \<and> (case response_status e of None \<Rightarrow> False | Some s \<Rightarrow> s \<noteq> 0 \<and> s \<ge> 500)
              \<and> attempt < maxRetries then Continue (500 * 2 ^ attempt)
      else if isAxiosError e
              \<and> (error_code e = Some ''ECONNREFUSED'' \<or> error_code e = Some ''ETIMEDOUT'')
              \<and> attempt < maxRetries then Continue (500 * 2 ^ attempt)
      else if isAxiosError e
              \<and> (case response_status e of None \<Rightarrow> False
                  | Some s \<Rightarrow> s \<noteq> 0 \<and> s < 500 \<and> s \<noteq> 429) then Break
      else if attempt < maxRetries then Continue (500 * 2 ^ attempt)
      else FallThrough)"

text \<open>
  The \<open>for\<close> loop of \<open>generateCommitMessage\<close>, from attempt number \<open>attempt\<close> on. \<open>remote n\<close>
  is how the \<open>n\<close>-th request ends, \<open>now\<close> the clock when a result is stored. The loop
  returns the result if an attempt succeeded, the number of requests made, the delays
  slept and the cache.
\<close>

function attempt_loop ::
  "(nat \<Rightarrow> attempt_outcome) \<Rightarrow> int \<Rightarrow> string \<Rightarrow> nat \<Rightarrow> nat list \<Rightarrow> cache_state
     \<Rightarrow> CommitSuggestion option \<times> nat \<times> nat list \<times> cache_state" where
  "attempt_loop remote now diffHash attempt slept st =
     (if attempt \<le> maxRetries then
        (case request_result (remote attempt) of
           Inr result \<Rightarrow>
             (Some result, attempt, slept,
              CommitCache_set now diffHash (intent result) (message result) st)
         | Inl e \<Rightarrow>
             (case on_error attempt e of
                Continue ms \<Rightarrow> attempt_loop remote now diffHash (attempt + 1) (slept @ [ms]) st
              | Break \<Rightarrow> (None, attempt, slept, st)
              | FallThrough \<Rightarrow> attempt_loop remote now diffHash (attempt + 1) slept st))
      else (None, attempt - 1, slept, st))"
  by pat_completeness auto
termination
  by (relation "measure (\<lambda>(remote, now, diffHash, attempt, slept, st). Suc maxRetries - attempt)") auto

declare attempt_loop.simps [simp del]

section \<open>The heuristic classifier\<close>

record DiffAnalysis =
  hasBugFix :: bool
  hasTestFix :: bool
  hasNewFunction :: bool
  hasNewClass :: bool
  hasNewEndpoint :: bool
  hasNewComponent :: bool
  hasRefactor :: bool
  hasRename :: bool
  hasMovedCode :: bool
  hasDocsChange :: bool
  hasCommentChange :: bool
  hasTestChange :: bool
  hasDeletions :: bool
  hasStyleChange :: bool
  hasWhitespaceOnly :: bool
  hasConfigChange :: bool
  hasDependencyChange :: bool
  additions :: nat
  deletions :: nat
  hasChanges :: bool

text \<open>\<open>interface ChangeSummary { total?: number; renamed?: number }\<close>, the numbers being
  integers. The field \<open>total\<close> is called \<open>total_files\<close> here.\<close>

record ChangeSummary =
  total_files :: "int option"
  renamed :: "int option"

text \<open>A parameter declared \<open>summary: ChangeSummary = {}\<close> that receives \<open>undefined\<close>.\<close>

definition or_empty :: "ChangeSummary option \<Rightarrow> ChangeSummary" where
  "or_empty s = (case s of None \<Rightarrow> \<lparr>total_files = None, renamed = None\<rparr> | Some x \<Rightarrow> x)"

text \<open>A regular expression literal: its flags and its pattern.\<close>

type_synonym RegExp = "rx_flags \<times> rx"

definition test :: "RegExp \<Rightarrow> string \<Rightarrow> bool" where
  "test re s = rx_test (fst re) (snd re) s"

definition matchesAny :: "RegExp list \<Rightarrow> string \<Rightarrow> bool" where
  "matchesAny patterns text = list_ex (\<lambda>p. test p text) patterns"

subsection \<open>\<open>extractFilesFromDiff\<close>\<close>

text \<open>
  \<open>/^diff --git a\/(.+?) b\/(.+)$/gm\<close>, split where the second group starts: the part up
  to \<open>b/\<close>, then the group \<open>(.+)\<close> with the closing \<open>$\<close>.
\<close>

definition file_header_rx :: rx where
  "file_header_rx = seqs [RBol, RLit ''diff --git a/'', RLazyPlus RDot, RLit '' b/'']"

definition file_name_rx :: rx where
  "file_name_rx = seqs [RPlus RDot, REol]"

text \<open>The first match the backtracking finds at a position, as \<open>match[2]\<close> and the position
  where the match ends.\<close>

definition exec_at :: "pos \<Rightarrow> (string \<times> pos) option" where
  "exec_at p =
     (case concat (map (\<lambda>q. map (\<lambda>r. (q, r)) (rx_ends flag_m file_name_rx q))
                       (rx_ends flag_m file_header_rx p)) of
        [] \<Rightarrow> None
      | (q, r) # rest \<Rightarrow> Some (take (length (snd q) - length (snd r)) (snd q), r))"

text \<open>\<open>while ((match = regex.exec(diff)))\<close>: \<open>exec\<close> looks for the leftmost match from
  \<open>lastIndex\<close> on and leaves \<open>lastIndex\<close> at its end. A match of this pattern is never
  empty (\<open>exec_at_advances\<close> below), so the search always resumes further on and the test
  that it does, which the termination proof needs, always succeeds.\<close>

function exec_loop :: "pos \<Rightarrow> string list" where
  "exec_loop p =
     (case exec_at p of
        Some (file, r) \<Rightarrow> file # (if advanced p r then exec_loop r else [])
      | None \<Rightarrow> (case snd p of [] \<Rightarrow> [] | c # cs \<Rightarrow> exec_loop (Some c, cs)))"
  by pat_completeness auto
termination
  by (relation "measure (\<lambda>p. length (snd p))") (auto simp: advanced_def)

declare exec_loop.simps [simp del]

definition extractFilesFromDiff :: "string \<Rightarrow> string list" where
  "extractFilesFromDiff diff =
     fold (\<lambda>file files. if file \<in> set files then files else files @ [file])
          (exec_loop (None, diff)) []"

subsection \<open>\<open>isTrivialWhitespace\<close>\<close>

definition blank_line_rx :: RegExp where
  "blank_line_rx = (no_flags, seqs [RBol, ROneOf ''+-'', RStar RSpace, REol])"

definition punctuation_line_rx :: RegExp where
  "punctuation_line_rx =
     (no_flags, seqs [RBol, ROneOf ''+-'', RStar RSpace, RStar (ROneOf ''{}();,''), RStar RSpace, REol])"

definition isTrivialWhitespace :: "string list \<Rightarrow> bool" where
  "isTrivialWhitespace lines =
     list_all (\<lambda>l. test blank_line_rx l \<or> test punctuation_line_rx l) lines"

subsection \<open>The patterns of \<open>analyzeDiff\<close>\<close>

definition bugFix_patterns :: "RegExp list" where
  "bugFix_patterns = [(flag_i, seqs [RWordB,
     alts [seqs [RLit ''fix'', ROpt (seqs [RLit ''e'', ROneOf ''ds''])], RLit ''bug'',
           RLit ''error'', RLit ''issue'', RLit ''crash'', RLit ''incorrect'', RLit ''fault''],
     RWordB])]"

definition testFix_patterns :: "RegExp list" where
  "testFix_patterns = [(flag_i, seqs [RWordB,
     alts [RLit ''fix'', RLit ''repair'', RLit ''correct''], RStar RDot,
     alts [RLit ''test'', RLit ''spec''], RWordB])]"

definition refactor_patterns :: "RegExp list" where
  "refactor_patterns = [(flag_i, seqs [RWordB,
     alts [RLit ''refactor'', RLit ''cleanup'', RLit ''simplify'', RLit ''restructure'',
           RLit ''reorganize''], RWordB])]"

definition style_patterns :: "RegExp list" where
  "style_patterns = [(flag_i, seqs [RWordB,
     alts [RLit ''format'', RLit ''lint'', RLit ''prettier'', RLit ''indent''], RWordB])]"

definition docs_ext_rx :: RegExp where
  "docs_ext_rx = (flag_i, seqs [RLit ''.'', alts [RLit ''md'', RLit ''rst'', RLit ''txt''], REol])"

definition readme_rx :: RegExp where
  "readme_rx = (flag_i, RLit ''readme'')"

definition test_file_rx :: RegExp where
  "test_file_rx = (flag_i, alts [RLit ''__tests__'', RLit ''.test.'', RLit ''.spec.''])"

definition config_file_rx :: RegExp where
  "config_file_rx = (flag_i, seqs [RLit ''.'',
     alts [RLit ''json'', seqs [RLit ''y'', ROpt (RLit ''a''), RLit ''ml''], RLit ''env'',
           RLit ''toml''], REol])"

definition dependency_file_rx :: RegExp where
  "dependency_file_rx = (flag_i,
     alts [seqs [RLit ''package'', ROpt (RLit ''-lock''), RLit ''.json''],
           RLit ''requirements.txt'', RLit ''go.mod'', RLit ''pom.xml''])"

definition function_decl_rx :: RegExp where
  "function_decl_rx = (no_flags, seqs [RBol, RLit ''+'', RStar RSpace,
     ROpt (seqs [RLit ''export'', RPlus RSpace]), ROpt (seqs [RLit ''async'', RPlus RSpace]),
     RLit ''function'', RPlus RSpace, RPlus RWord])"

definition arrow_decl_rx :: RegExp where
  "arrow_decl_rx = (no_flags, seqs [RBol, RLit ''+'', RStar RSpace,
     ROpt (seqs [RLit ''export'', RPlus RSpace]), RLit ''const'', RPlus RSpace, RPlus RWord,
     RStar RSpace, RLit ''='', RStar RSpace, ROpt (seqs [RLit ''async'', RStar RSpace]),
     RLit ''(''])"

definition class_decl_rx :: RegExp where
  "class_decl_rx = (no_flags, seqs [RBol, RLit ''+'', RStar RSpace,
     ROpt (seqs [RLit ''export'', RPlus RSpace]), RLit ''class'', RPlus RSpace, RPlus RWord])"

definition route_call_rx :: RegExp where
  "route_call_rx = (flag_i, seqs [RWordB, alts [RLit ''app'', RLit ''router''], RLit ''.'',
     alts [RLit ''get'', RLit ''post'', RLit ''put'', RLit ''delete'', RLit ''patch''], RWordB])"

definition route_decorator_rx :: RegExp where
  "route_decorator_rx = (flag_m, seqs [RBol, RLit ''+'', RStar RSpace, RLit ''@'',
     alts [RLit ''Get'', RLit ''Post'', RLit ''Put'', RLit ''Delete'', RLit ''Patch''], RWordB])"

definition component_file_rx :: RegExp where
  "component_file_rx = (flag_i, seqs [RLit ''.'', alts [RLit ''jsx'', RLit ''tsx''], REol])"

definition component_decl_rx :: RegExp where
  "component_decl_rx = (no_flags, seqs [RBol, RLit ''+'', RStar RSpace,
     ROpt (seqs [RLit ''export'', RPlus RSpace]), alts [RLit ''function'', RLit ''const''],
     RPlus RSpace, RRange CHR ''A'' CHR ''Z'', RStar RWord])"

definition comment_rx :: RegExp where
  "comment_rx = (no_flags, seqs [RBol, RLit ''+'', RStar RSpace,
     alts [RLit ''//'', RLit ''/*'', RLit ''*'']])"

subsection \<open>\<open>analyzeDiff\<close>, \<open>determineIntent\<close>, \<open>generateMessage\<close>\<close>

definition analyzeDiff :: "string \<Rightarrow> ChangeSummary option \<Rightarrow> DiffAnalysis" where
  "analyzeDiff diff summary_arg =
     (let summary = or_empty summary_arg;
          lines = split_on newline diff;
          files = extractFilesFromDiff diff;
          addedLines = filter (\<lambda>l. startsWith l ''+'' \<and> \<not> startsWith l ''+++'') lines;
          removedLines = filter (\<lambda>l. startsWith l ''-'' \<and> \<not> startsWith l ''---'') lines;
          adds = length addedLines;
          dels = length removedLines;
          docsChange = list_ex (\<lambda>f. test docs_ext_rx f \<or> test readme_rx f) files;
          testChange = list_ex (\<lambda>f. test test_file_rx f) files;
          configChange = list_ex (\<lambda>f. test config_file_rx f) files;
          dependencyChange = list_ex (\<lambda>f. test dependency_file_rx f) files;
          newFunction = list_ex (\<lambda>l. test function_decl_rx l \<or> test arrow_decl_rx l) addedLines;
          newClass = list_ex (\<lambda>l. test class_decl_rx l) addedLines;
          newEndpoint = (list_ex (\<lambda>l. test route_call_rx l) addedLines
                         \<or> test route_decorator_rx diff);
          newComponent = (list_ex (\<lambda>f. test component_file_rx f) files
                          \<and> list_ex (\<lambda>l. test component_decl_rx l) addedLines);
          whitespaceOnly = (adds + dels > 0 \<and> isTrivialWhitespace (addedLines @ removedLines));
          renames = (case renamed summary of None \<Rightarrow> 0 | Some n \<Rightarrow> n)
      in \<lparr>hasBugFix = matchesAny bugFix_patterns diff,
          hasTestFix = (testChange \<and> matchesAny testFix_patterns diff),
          hasNewFunction = newFunction,
          hasNewClass = newClass,
          hasNewEndpoint = newEndpoint,
          hasNewComponent = newComponent,
          hasRefactor = matchesAny refactor_patterns diff,
          hasRename = (renames > 0),
          hasMovedCode = (renames > 0 \<and> adds > 0 \<and> dels > 0),
          hasDocsChange = docsChange,
          hasCommentChange = list_ex (\<lambda>l. test comment_rx l) addedLines,
          hasTestChange = testChange,
          hasDeletions = (dels > 0),
          hasStyleChange = matchesAny style_patterns diff,
          hasWhitespaceOnly = whitespaceOnly,
          hasConfigChange = configChange,
          hasDependencyChange = dependencyChange,
          additions = adds,
          deletions = dels,
          hasChanges = (adds + dels > 0)\<rparr>)"

definition determineIntent :: "DiffAnalysis \<Rightarrow> ChangeSummary option \<Rightarrow> string" where
  "determineIntent analysis summary_arg =
     (if \<not> hasChanges analysis then ''Chore''
      else if hasBugFix analysis \<or> hasTestFix analysis then ''Bug Fix''
      else if hasTestChange analysis \<and> \<not> hasBugFix analysis then ''Test''
      else if hasDocsChange analysis then ''Documentation''
      else if hasRefactor analysis \<or> hasMovedCode analysis
              \<or> deletions analysis > additions analysis * 2 then ''Refactor''
      else if hasNewFunction analysis \<or> hasNewClass analysis \<or> hasNewComponent analysis
              \<or> hasNewEndpoint analysis then ''Feature''
      else if hasDependencyChange analysis \<or> hasConfigChange analysis then ''Chore''
      else if hasStyleChange analysis \<or> hasWhitespaceOnly analysis then ''Style''
      else ''Update'')"

text \<open>\<open>`${fileCount}`\<close>\<close>

definition show_count :: "int option \<Rightarrow> string" where
  "show_count n = (case n of None \<Rightarrow> ''undefined''
     | Some k \<Rightarrow> if k < 0 then CHR ''-'' # show_nat (nat (- k)) else show_nat (nat k))"

definition generateMessage :: "DiffAnalysis \<Rightarrow> string \<Rightarrow> ChangeSummary option \<Rightarrow> string" where
  "generateMessage analysis intent_arg summary_arg =
     (let summary = or_empty summary_arg;
          fileCount = total_files summary;
          hasFileCount = (case fileCount of None \<Rightarrow> False | Some n \<Rightarrow> n > 0);
          fileWord = (if fileCount = Some 1 then ''file'' else ''files'');
          counted = show_count fileCount @ '' '' @ fileWord
      in if intent_arg = ''Bug Fix'' then
           (if hasTestFix analysis
            then (if hasFileCount then ''fix failing tests in '' @ counted else ''fix failing tests'')
            else (if hasFileCount then ''fix issues in '' @ counted else ''fix issues''))
         else if intent_arg = ''Feature'' then
           (if hasNewEndpoint analysis then ''add new API endpoints''
            else if hasNewComponent analysis then ''add new components''
            else if hasNewClass analysis \<or> hasNewFunction analysis
            then (if hasFileCount then ''add new functionality to '' @ counted
                  else ''add new functionality'')
            else (if hasFileCount then ''implement new features in '' @ counted
                  else ''implement new features''))
         else if intent_arg = ''Refactor'' then
           (if hasMovedCode analysis
            then (if hasFileCount then ''restructure code in '' @ counted else ''restructure code'')
            else if deletions analysis > additions analysis * 2
            then (if hasFileCount then ''remove unused code from '' @ counted
                  else ''remove unused code'')
            else (if hasFileCount then ''refactor code in '' @ counted else ''refactor code''))
         else if intent_arg = ''Test'' then
           (if hasFileCount then ''add/update tests in '' @ counted else ''add/update tests'')
         else if intent_arg = ''Chore'' then
           (if hasDependencyChange analysis then ''update dependencies''
            else if hasConfigChange analysis then ''update configuration files''
            else ''update project configuration'')
         else if intent_arg = ''Style'' then
           (if hasFileCount then ''format and style '' @ counted else ''format and style code'')
         else if intent_arg = ''Documentation'' then
           (if hasFileCount
            then (if fileCount = Some 1 then ''update documentation''
                  else ''update documentation in '' @ counted)
            else ''update documentation'')
         else (if hasFileCount then ''update '' @ counted else ''update code''))"

definition generateFallbackCommit ::
  "int \<Rightarrow> string \<Rightarrow> ChangeSummary option \<Rightarrow> cache_state \<Rightarrow> CommitSuggestion \<times> cache_state" where
  "generateFallbackCommit now diff summary st =
     (let diffHash = sha1_hex diff;
          analysis = analyzeDiff diff summary;
          i = determineIntent analysis summary;
          m = generateMessage analysis i summary
      in (\<lparr>intent = i, message = m\<rparr>, CommitCache_set now diffHash i m st))"

section \<open>The orchestrator\<close>

text \<open>
  What a call of \<open>generateCommitMessage\<close> hands back: the object built by \<open>parseResponse\<close>
  or by the fallback, or the object \<open>commitCache.get\<close> returned, passed on as it is.
\<close>

datatype answer = Fresh CommitSuggestion | FromCache CachedSuggestion

definition suggestion_of :: "answer \<Rightarrow> CommitSuggestion" where
  "suggestion_of a = (case a of Fresh s \<Rightarrow> s
     | FromCache c \<Rightarrow> \<lparr>intent = intent c, message = message c\<rparr>)"

text \<open>A finished call: its value, the number of requests sent to the endpoint, the
  delays slept between them, and the cache afterwards.\<close>

record 'r call =
  returned :: 'r
  requests :: nat
  sleeps :: "nat list"
  cache_after :: cache_state

text \<open>
  \<open>generateCommitMessage(diff, summary?)\<close> of the client with the heuristic fallback.
  \<open>now_get\<close> is the clock at the cache lookup and \<open>now_set\<close> the clock when the result is
  stored.
\<close>

definition generateCommitMessage ::
  "(nat \<Rightarrow> attempt_outcome) \<Rightarrow> int \<Rightarrow> int \<Rightarrow> string \<Rightarrow> ChangeSummary option \<Rightarrow> cache_state
     \<Rightarrow> answer call" where
  "generateCommitMessage remote now_get now_set diff summary st =
     (let diffHash = sha1_hex diff in
      case CommitCache_get now_get diffHash st of
        (Some cached, st1) \<Rightarrow>
          \<lparr>returned = FromCache cached, requests = 0, sleeps = [], cache_after = st1\<rparr>
      | (None, st1) \<Rightarrow>
          (case attempt_loop remote now_set diffHash 1 [] st1 of
             (Some result, n, slept, st2) \<Rightarrow>
               \<lparr>returned = Fresh result, requests = n, sleeps = slept, cache_after = st2\<rparr>
           | (None, n, slept, st2) \<Rightarrow>
               (case generateFallbackCommit now_set diff summary st2 of
                  (result, st3) \<Rightarrow>
                    \<lparr>returned = Fresh result, requests = n, sleeps = slept, cache_after = st3\<rparr>)))"

subsection \<open>\<open>services/llm.ts\<close>: the client without a fallback\<close>

text \<open>
  The \<open>generateCommitMessage(diff)\<close> of \<open>services/llm.ts\<close> has the same loop, but it hands the
  diff itself to the cache, waits \<open>1000 * attempt\<close> between attempts, and where the other
  client leaves the loop for the fallback this one throws.
\<close>

datatype catch_action_llm = Continue_llm nat | Break_llm | FallThrough_llm | Throw_llm error

definition on_error_llm :: "nat \<Rightarrow> error \<Rightarrow> catch_action_llm" where
  "on_error_llm attempt e =
     (if isAxiosError e \<and> response_status e = Some 429 then
        (if attempt < maxRetries then Continue_llm (1000 * attempt)
         else Throw_llm (Error ''API rate limit reached. Please try again later.''))
      else if isAxiosError e
              \<and> (case response_status e of None \<Rightarrow> False | Some s \<Rightarrow> s \<noteq> 0 \<and> s \<ge> 500)
              \<and> attempt < maxRetries then Continue_llm (1000 * attempt)
      else if isAxiosError e
              \<and> (error_code e = Some ''ECONNREFUSED'' \<or> error_code e = Some ''ETIMEDOUT'') then
        (if attempt < maxRetries then Continue_llm (1000 * attempt)
         else Throw_llm (Error ''Unable to connect to API. Please check your network connection.''))
      else if isAxiosError e
              \<and> (case response_status e of None \<Rightarrow> False
                  | Some s \<Rightarrow> s \<noteq> 0 \<and> s < 500 \<and> s \<noteq> 429) then Break_llm
      else if attempt < maxRetries then Continue_llm (1000 * attempt)
      else FallThrough_llm)"

text \<open>The loop ends with \<open>Inl\<close> when the \<open>catch\<close> block throws, with \<open>Inr (Some result)\<close> on
  \<open>return result\<close>, and with \<open>Inr None\<close> when it is left without a result.\<close>

function attempt_loop_llm ::
  "(nat \<Rightarrow> attempt_outcome) \<Rightarrow> int \<Rightarrow> string \<Rightarrow> nat \<Rightarrow> nat list \<Rightarrow> cache_state
     \<Rightarrow> (error + CommitSuggestion option) \<times> nat \<times> nat list \<times> cache_state" where
  "attempt_loop_llm remote now diff attempt slept st =
     (if attempt \<le> maxRetries then
        (case request_result (remote attempt) of
           Inr result \<Rightarrow>
             (Inr (Some result), attempt, slept,
              CommitCache_set now diff (intent result) (message result) st)
         | Inl e \<Rightarrow>
             (case on_error_llm attempt e of
                Continue_llm ms \<Rightarrow> attempt_loop_llm remote now diff (attempt + 1) (slept @ [ms]) st
              | Break_llm \<Rightarrow> (Inr None, attempt, slept, st)
              | FallThrough_llm \<Rightarrow> attempt_loop_llm remote now diff (attempt + 1) slept st
              | Throw_llm err \<Rightarrow> (Inl err, attempt, slept, st)))
      else (Inr None, attempt - 1, slept, st))"
  by pat_completeness auto
termination
  by (relation "measure (\<lambda>(remote, now, diff, attempt, slept, st). Suc maxRetries - attempt)") auto

declare attempt_loop_llm.simps [simp del]

definition generateCommitMessage_llm ::
  "(nat \<Rightarrow> attempt_outcome) \<Rightarrow> int \<Rightarrow> int \<Rightarrow> string \<Rightarrow> cache_state \<Rightarrow> (error + answer) call" where
  "generateCommitMessage_llm remote now_get now_set diff st =
     (case CommitCache_get now_get diff st of
        (Some cached, st1) \<Rightarrow>
          \<lparr>returned = Inr (FromCache cached), requests = 0, sleeps = [], cache_after = st1\<rparr>
      | (None, st1) \<Rightarrow>
          (case attempt_loop_llm remote now_set diff 1 [] st1 of
             (Inr (Some result), n, slept, st2) \<Rightarrow>
               \<lparr>returned = Inr (Fresh result), requests = n, sleeps = slept, cache_after = st2\<rparr>
           | (Inl err, n, slept, st2) \<Rightarrow>
               \<lparr>returned = Inl err, requests = n, sleeps = slept, cache_after = st2\<rparr>
           | (Inr None, n, slept, st2) \<Rightarrow>
               \<lparr>returned = Inl (Error ''Failed to generate commit message. Please check your API configuration.''),
                requests = n, sleeps = slept, cache_after = st2\<rparr>))"

section \<open>Notions used to state the properties\<close>

text \<open>Every entry of the map is filed under its own \<open>hash\<close> field. \<open>loadCache\<close> and
  \<open>set\<close> file entries no other way, so the cache of a running program always is.\<close>

definition well_keyed :: "cache_state \<Rightarrow> bool" where
  "well_keyed st = list_all (\<lambda>(k, e). hash e = k) (cache st)"

text \<open>The map holds one entry per key, as a \<open>Map\<close> does.\<close>

definition distinct_keys :: "cache_state \<Rightarrow> bool" where
  "distinct_keys st = distinct (map fst (cache st))"

text \<open>Every message stored in the cache has at most 70 characters. It holds of an empty
  cache and every call of the orchestrator keeps it.\<close>

definition bounded_messages :: "cache_state \<Rightarrow> bool" where
  "bounded_messages st = list_all (\<lambda>(k, e). length (message e) \<le> 70) (cache st)"

text \<open>The two tests the \<open>catch\<close> block makes on an error: an HTTP error response with a
  status below 500 other than 429, and one of the two network codes it names.\<close>

definition is_client_error :: "error \<Rightarrow> bool" where
  "is_client_error e = (isAxiosError e
     \<and> (case response_status e of None \<Rightarrow> False | Some s \<Rightarrow> s \<noteq> 0 \<and> s < 500 \<and> s \<noteq> 429))"

definition is_network_failure :: "error \<Rightarrow> bool" where
  "is_network_failure e = (isAxiosError e
     \<and> (error_code e = Some ''ECONNREFUSED'' \<or> error_code e = Some ''ETIMEDOUT''))"

subsection \<open>Example data\<close>

text \<open>A fresh process in the directory \<open>repo\<close> with no cache file.\<close>

definition ex_empty :: cache_state where
  "ex_empty = \<lparr>cache = [], disk = NoFile, writable = True, cwd_name = ''repo''\<rparr>"

text \<open>An entry for the diff \<open>+x\<close> as the orchestrator files it, stored at time 0.\<close>

definition ex_entry :: CacheEntry where
  "ex_entry = \<lparr>intent = ''Feature'', message = ''add x'', folder = ''repo'',
               hash = hashDiff (sha1_hex ''+x''), timestamp = 0\<rparr>"

definition ex_cached :: cache_state where
  "ex_cached = \<lparr>cache = [(hashDiff (sha1_hex ''+x''), ex_entry)], disk = Entries [ex_entry],
                writable = True, cwd_name = ''repo''\<rparr>"

text \<open>An endpoint that answers every request with status 500, and one that answers every
  request with a body that has neither label.\<close>

definition server_down :: "nat \<Rightarrow> attempt_outcome" where
  "server_down n = Rejected (AxiosError (Some 500) None)"

definition unlabelled_reply :: "nat \<Rightarrow> attempt_outcome" where
  "unlabelled_reply n = Resolved (Data (Some ''hello''))"

text \<open>The cache after a call for the diff \<open>+x\<close>, made on an empty cache at a time when the
  endpoint answers 500: the fallback has stored its result.\<close>

definition after_plus_x :: cache_state where
  "after_plus_x = cache_after (generateCommitMessage server_down 10 20 ''+x'' None ex_empty)"

text \<open>An endpoint that answers every request with status 404.\<close>

definition not_found :: "nat \<Rightarrow> attempt_outcome" where
  "not_found n = Rejected (AxiosError (Some 404) None)"

text \<open>A reply whose message has 80 characters.\<close>

definition ex_long_reply :: string where
  "ex_long_reply = ''Intent: Feature'' @ [newline] @ ''Message: '' @ replicate 80 (CHR ''a'')"

text \<open>A second entry, stored at time 50 for the diff \<open>+y\<close>, and a cache that holds both.\<close>

definition ex_newer :: CacheEntry where
  "ex_newer = \<lparr>intent = ''Update'', message = ''update code'', folder = ''repo'',
               hash = hashDiff (sha1_hex ''+y''), timestamp = 50\<rparr>"

definition ex_two :: cache_state where
  "ex_two = \<lparr>cache = [(hashDiff (sha1_hex ''+x''), ex_entry), (hashDiff (sha1_hex ''+y''), ex_newer)],
             disk = Entries [ex_entry, ex_newer], writable = True, cwd_name = ''repo''\<rparr>"

text \<open>The feature vector of a diff that touches a test file and a README and adds a
  function.\<close>

definition ex_analysis :: DiffAnalysis where
  "ex_analysis = \<lparr>hasBugFix = False, hasTestFix = False, hasNewFunction = True,
     hasNewClass = False, hasNewEndpoint = False, hasNewComponent = False, hasRefactor = False,
     hasRename = False, hasMovedCode = False, hasDocsChange = True, hasCommentChange = False,
     hasTestChange = True, hasDeletions = False, hasStyleChange = False,
     hasWhitespaceOnly = False, hasConfigChange = False, hasDependencyChange = False,
     additions = 1, deletions = 0, hasChanges = True\<rparr>"

section \<open>Test vectors for the digests\<close>

lemma sha256_hex_abc:
  "sha256_hex ''abc'' = ''ba7816bf8f01cfea414140de5dae2223b00361a396177a9cb410ff61f20015ad''"
  by code_simp

lemma sha1_hex_abc:
  "sha1_hex ''abc'' = ''a9993e364706816aba3e25717850c26c9cd0d89d''"
  by code_simp

text \<open>A string outside ASCII: the letter \<open>e\<close> with an acute accent, two bytes in UTF-8.\<close>

lemma sha1_hex_latin1:
  "sha1_hex [CHR 0xE9] = ''bf15be717ac1b080b4f1c456692825891ff5073d''"
  by code_simp

section \<open>Facts about the regular expressions\<close>

text \<open>The bound on the iterations of a quantifier is never what stops it: more fuel than
  the length of the remaining input changes nothing.\<close>

lemma star_ends_fuel: "length (snd p) \<le> n \<Longrightarrow> star_ends f (Suc n) p = star_ends f n p"
proof (induction n arbitrary: p)
  case 0
  then have "filter (advanced p) (f p) = []"
    by (simp add: advanced_def filter_empty_conv)
  then show ?case by simp
next
  case (Suc m)
  have "map (star_ends f (Suc m)) (filter (advanced p) (f p))
        = map (star_ends f m) (filter (advanced p) (f p))"
  proof (rule map_cong[OF refl])
    fix q assume "q \<in> set (filter (advanced p) (f p))"
    then have "length (snd q) \<le> m" using Suc.prems by (simp add: advanced_def)
    then show "star_ends f (Suc m) q = star_ends f m q" by (rule Suc.IH)
  qed
  then have "concat (map (star_ends f (Suc m)) (filter (advanced p) (f p))) @ [p]
             = concat (map (star_ends f m) (filter (advanced p) (f p))) @ [p]"
    by (simp only:)
  then show ?case by (simp only: star_ends.simps)
qed

lemma star_ends_enough: "length (snd p) \<le> n \<Longrightarrow> star_ends f n p = star_ends f (length (snd p)) p"
proof (induction n)
  case 0
  then show ?case by simp
next
  case (Suc n)
  show ?case
  proof (cases "length (snd p) \<le> n")
    case True
    with Suc.IH star_ends_fuel[OF True, of f] show ?thesis by simp
  next
    case False
    with Suc.prems have "length (snd p) = Suc n" by simp
    then show ?thesis by simp
  qed
qed

lemma lazy_ends_fuel: "length (snd p) \<le> n \<Longrightarrow> lazy_ends f (Suc n) p = lazy_ends f n p"
proof (induction n arbitrary: p)
  case 0
  then have "filter (advanced p) (f p) = []"
    by (simp add: advanced_def filter_empty_conv)
  then show ?case by simp
next
  case (Suc m)
  have "map (lazy_ends f (Suc m)) (filter (advanced p) (f p))
        = map (lazy_ends f m) (filter (advanced p) (f p))"
  proof (rule map_cong[OF refl])
    fix q assume "q \<in> set (filter (advanced p) (f p))"
    then have "length (snd q) \<le> m" using Suc.prems by (simp add: advanced_def)
    then show "lazy_ends f (Suc m) q = lazy_ends f m q" by (rule Suc.IH)
  qed
  then have "p # concat (map (lazy_ends f (Suc m)) (filter (advanced p) (f p)))
             = p # concat (map (lazy_ends f m) (filter (advanced p) (f p)))"
    by (simp only:)
  then show ?case by (simp only: lazy_ends.simps)
qed

text \<open>A match never ends before the position where it starts.\<close>

lemma step_char_shorter: "q \<in> set (step_char P p) \<Longrightarrow> length (snd q) < length (snd p)"
  by (cases "(P, p)" rule: step_char.cases) (auto split: if_splits)

lemma lit_ends_length: "q \<in> set (lit_ends fl s p) \<Longrightarrow> length (snd q) + length s = length (snd p)"
  by (induction fl s p rule: lit_ends.induct) (auto split: if_splits)

lemma star_ends_le:
  "q \<in> set (star_ends f n p) \<Longrightarrow> length (snd q) \<le> length (snd p)"
proof (induction n arbitrary: p)
  case 0
  then show ?case by simp
next
  case (Suc n)
  from Suc.prems consider "q = p" | p' where "p' \<in> set (f p)" "advanced p p'" "q \<in> set (star_ends f n p')"
    by auto
  then show ?case
  proof cases
    case 1
    then show ?thesis by simp
  next
    case 2
    from Suc.IH[OF 2(3)] 2(2) show ?thesis by (simp add: advanced_def)
  qed
qed

lemma lazy_ends_le:
  "q \<in> set (lazy_ends f n p) \<Longrightarrow> length (snd q) \<le> length (snd p)"
proof (induction n arbitrary: p)
  case 0
  then show ?case by simp
next
  case (Suc n)
  from Suc.prems consider "q = p" | p' where "p' \<in> set (f p)" "advanced p p'" "q \<in> set (lazy_ends f n p')"
    by auto
  then show ?case
  proof cases
    case 1
    then show ?thesis by simp
  next
    case 2
    from Suc.IH[OF 2(3)] 2(2) show ?thesis by (simp add: advanced_def)
  qed
qed

lemma rx_ends_le: "q \<in> set (rx_ends fl r p) \<Longrightarrow> length (snd q) \<le> length (snd p)"
proof (induction r arbitrary: p q)
  case (RLit s)
  from lit_ends_length[of q fl s p] RLit show ?case by simp
next
  case (RSeq a b)
  then obtain m where "m \<in> set (rx_ends fl a p)" "q \<in> set (rx_ends fl b m)" by auto
  with RSeq.IH(1)[of m p] RSeq.IH(2)[of q m] show ?case by simp
next
  case (RAlt a b)
  from RAlt.prems have "q \<in> set (rx_ends fl a p) \<or> q \<in> set (rx_ends fl b p)" by simp
  with RAlt.IH(1)[of q p] RAlt.IH(2)[of q p] show ?case by blast
next
  case (ROpt a)
  from ROpt.prems have "q \<in> set (rx_ends fl a p) \<or> q = p" by auto
  with ROpt.IH[of q p] show ?case by auto
next
  case (RStar a)
  from RStar.prems have "q \<in> set (star_ends (rx_ends fl a) (length (snd p)) p)" by simp
  then show ?case by (rule star_ends_le)
next
  case (RPlus a)
  then obtain m where "m \<in> set (rx_ends fl a p)" "q \<in> set (star_ends (rx_ends fl a) (length (snd m)) m)"
    by auto
  with RPlus.IH[of m p] star_ends_le[of q "rx_ends fl a" "length (snd m)" m] show ?case by simp
next
  case (RLazyPlus a)
  then obtain m where "m \<in> set (rx_ends fl a p)" "q \<in> set (lazy_ends (rx_ends fl a) (length (snd m)) m)"
    by auto
  with RLazyPlus.IH[of m p] lazy_ends_le[of q "rx_ends fl a" "length (snd m)" m] show ?case by simp
qed (auto dest: step_char_shorter less_imp_le split: if_splits)

text \<open>A match of the file-header pattern is never empty, so the loop of
  \<open>extractFilesFromDiff\<close> always resumes further on.\<close>

lemma file_header_advances:
  assumes "q \<in> set (rx_ends flag_m file_header_rx p)"
  shows "length (snd q) < length (snd p)"
proof -
  from assms obtain p1 p2 where p1: "p1 \<in> set (rx_ends flag_m RBol p)"
    and p2: "p2 \<in> set (lit_ends flag_m ''diff --git a/'' p1)"
    and q: "q \<in> set (rx_ends flag_m (RSeq (RLazyPlus RDot) (RSeq (RLit '' b/'') REps)) p2)"
    by (auto simp: file_header_rx_def seqs_def)
  from p1 have "p1 = p" by (simp split: if_splits)
  with lit_ends_length[OF p2] have "length (snd p2) < length (snd p)" by simp
  with rx_ends_le[OF q] show ?thesis by simp
qed

lemma exec_at_advances: "exec_at p = Some (name, r) \<Longrightarrow> advanced p r"
proof -
  assume a: "exec_at p = Some (name, r)"
  let ?pairs = "concat (map (\<lambda>q. map (\<lambda>r. (q, r)) (rx_ends flag_m file_name_rx q))
                       (rx_ends flag_m file_header_rx p))"
  from a obtain q rest where pairs: "?pairs = (q, r) # rest"
    by (auto simp: exec_at_def split: list.splits)
  then have "(q, r) \<in> set ?pairs" by simp
  then have q: "q \<in> set (rx_ends flag_m file_header_rx p)" and r: "r \<in> set (rx_ends flag_m file_name_rx q)"
    by auto
  from file_header_advances[OF q] rx_ends_le[OF r] show ?thesis by (simp add: advanced_def)
qed

lemma exec_loop_unfold:
  "exec_loop p =
     (case exec_at p of
        Some (name, r) \<Rightarrow> name # exec_loop r
      | None \<Rightarrow> (case snd p of [] \<Rightarrow> [] | c # cs \<Rightarrow> exec_loop (Some c, cs)))"
proof (cases "exec_at p")
  case None
  then show ?thesis by (subst exec_loop.simps) simp
next
  case (Some fr)
  obtain name r where fr: "fr = (name, r)" by (cases fr)
  from Some fr exec_at_advances[of p name r] show ?thesis
    by (subst exec_loop.simps) simp
qed

section \<open>Facts about the cache\<close>

lemma saveCache_cache [simp]: "cache (saveCache st) = cache st"
  by (simp add: saveCache_def)

lemma saveCache_writable [simp]: "writable (saveCache st) = writable st"
  by (simp add: saveCache_def)

lemma saveCache_cwd [simp]: "cwd_name (saveCache st) = cwd_name st"
  by (simp add: saveCache_def)

lemma saveCache_disk: "disk (saveCache st) = (if writable st then Entries (map snd (cache st)) else disk st)"
  by (simp add: saveCache_def)

lemma map_of_delete_self: "map_of (AList.delete k al) k = None"
  by (simp add: delete_conv')

lemma well_keyed_delete: "list_all (\<lambda>(k, e). hash e = k) al \<Longrightarrow> list_all (\<lambda>(k, e). hash e = k) (AList.delete h al)"
  by (induction al) auto

lemma well_keyed_update: "list_all (\<lambda>(k, e). hash e = k) al \<Longrightarrow> hash v = h \<Longrightarrow> list_all (\<lambda>(k, e). hash e = k) (AList.update h v al)"
  by (induction al) auto

lemma delete_no_key: "h \<notin> fst ` set (AList.delete h al)"
  by (induction al) auto

lemma get_hit:
  "map_of (cache st) (hashDiff d) = Some e \<Longrightarrow> now - timestamp e \<le> CACHE_MAX_AGE \<Longrightarrow>
   CommitCache_get now d st = (Some \<lparr>intent = intent e, message = message e, folder = folder e\<rparr>, st)"
  by (simp add: CommitCache_get_def Let_def)

lemma get_Some_iff:
  "fst (CommitCache_get now d st) = Some c \<longleftrightarrow>
   (\<exists>e. map_of (cache st) (hashDiff d) = Some e \<and> now - timestamp e \<le> CACHE_MAX_AGE
        \<and> c = \<lparr>intent = intent e, message = message e, folder = folder e\<rparr>)"
  by (auto simp: CommitCache_get_def Let_def split: option.splits)

lemma get_Some_state:
  "fst (CommitCache_get now d st) = Some c \<Longrightarrow> snd (CommitCache_get now d st) = st"
  by (auto simp: CommitCache_get_def Let_def split: option.splits if_splits)

lemma get_None_absent:
  "fst (CommitCache_get now d st) = None \<Longrightarrow>
   map_of (cache (snd (CommitCache_get now d st))) (hashDiff d) = None"
  by (auto simp: CommitCache_get_def Let_def map_of_delete_self split: option.splits if_splits)

lemma set_lookup:
  "map_of (cache (CommitCache_set now d i m st)) (hashDiff d)
     = Some \<lparr>intent = i, message = m, folder = cwd_name st, hash = hashDiff d, timestamp = now\<rparr>"
  by (simp add: CommitCache_set_def Let_def update_conv' getCurrentFolder_def)

lemma update_values_subset: "snd ` set (AList.update k v al) \<subseteq> insert v (snd ` set al)"
  by (induction al) auto

lemma load_fold_fresh:
  "\<forall>e \<in> snd ` set c. now - timestamp e < CACHE_MAX_AGE \<Longrightarrow>
   \<forall>e \<in> snd ` set (fold (\<lambda>entry c. if now - timestamp entry < CACHE_MAX_AGE
                                       then AList.update (hash entry) entry c else c) es c).
      now - timestamp e < CACHE_MAX_AGE"
proof (induction es arbitrary: c)
  case Nil
  then show ?case by simp
next
  case (Cons x xs)
  show ?case
  proof (cases "now - timestamp x < CACHE_MAX_AGE")
    case True
    have "\<forall>e \<in> snd ` set (AList.update (hash x) x c). now - timestamp e < CACHE_MAX_AGE"
      using update_values_subset[of "hash x" x c] Cons.prems True by blast
    from Cons.IH[OF this] True show ?thesis by simp
  next
    case False
    with Cons.IH[OF Cons.prems] show ?thesis by simp
  qed
qed

lemma new_CommitCache_fresh:
  "\<forall>e \<in> snd ` set (cache (new_CommitCache now on_disk w dir)). now - timestamp e < CACHE_MAX_AGE"
proof (cases on_disk)
  case (Entries es)
  have "\<forall>e \<in> snd ` set ([] :: (string \<times> CacheEntry) list). now - timestamp e < CACHE_MAX_AGE"
    by simp
  from load_fold_fresh[OF this, of es] Entries show ?thesis
    by (simp add: new_CommitCache_def loadCache_def)
qed (simp_all add: new_CommitCache_def loadCache_def)

section \<open>Facts about the digests\<close>

lemma hashDiff_trim: "trim a = trim b \<Longrightarrow> hashDiff a = hashDiff b"
  by (simp add: hashDiff_def)

lemma hex_char_not_space: "\<not> isWhiteSpace (hex_char n)"
proof -
  have "hex_char n \<in> set ''0123456789abcdef''"
    unfolding hex_char_def by (rule nth_mem) simp
  moreover have "\<forall>c \<in> set ''0123456789abcdef''. \<not> isWhiteSpace c"
    by (simp add: isWhiteSpace_def)
  ultimately show ?thesis by blast
qed

lemma hex32_no_space: "c \<in> set (hex32 w) \<Longrightarrow> \<not> isWhiteSpace c"
  by (auto simp: hex32_def hex_char_not_space)

lemma sha1_hex_no_space: "c \<in> set (sha1_hex s) \<Longrightarrow> \<not> isWhiteSpace c"
  by (auto simp: sha1_hex_def hex32_no_space)

lemma dropWhile_none: "\<forall>x \<in> set xs. \<not> P x \<Longrightarrow> dropWhile P xs = xs"
  by (cases xs) auto

lemma trim_no_space: "\<forall>c \<in> set s. \<not> isWhiteSpace c \<Longrightarrow> trim s = s"
  by (simp add: trim_def dropWhile_none)

lemma trim_sha1_hex: "trim (sha1_hex s) = sha1_hex s"
  by (rule trim_no_space) (simp add: sha1_hex_no_space)

lemma length_round256: "length (round256 s kw) = length s"
  by (induction s kw rule: round256.induct) (simp_all add: Let_def)

lemma length_foldl_round256: "length (foldl round256 s kws) = length s"
  by (induction kws arbitrary: s) (simp_all add: length_round256)

lemma length_compress256: "length (compress256 h blk) = length h"
  by (simp add: compress256_def length_foldl_round256)

lemma length_foldl_compress256: "length (foldl compress256 h bs) = length h"
  by (induction bs arbitrary: h) (simp_all add: length_compress256)

lemma length_hex32: "length (hex32 w) = 8"
  by (simp add: hex32_def)

lemma length_concat_hex32: "length (concat (map hex32 ws)) = 8 * length ws"
  by (induction ws) (simp_all add: length_hex32)

lemma length_sha256_hex: "length (sha256_hex s) = 64"
  by (simp add: sha256_hex_def sha256_def Let_def length_concat_hex32 length_foldl_compress256 H256_def)

lemma hashDiff_pipeline: "hashDiff (sha1_hex diff) = sha256_hex (sha1_hex diff)"
  by (simp add: hashDiff_def trim_sha1_hex)

text \<open>Handed the diffs themselves, as \<open>commitCache.get(diff)\<close> and \<open>commitCache.set(diff, ...)\<close>
  of \<open>services/llm.ts\<close> do, the cache answers a lookup for one diff from the entry stored
  for another that is equal to it after trimming.\<close>

lemma trim_equal_hit:
  assumes "trim a = trim b" and "g - s \<le> CACHE_MAX_AGE"
  shows "fst (CommitCache_get g b (CommitCache_set s a i m st))
           = Some \<lparr>intent = i, message = m, folder = cwd_name st\<rparr>"
proof -
  from assms(1) have "hashDiff a = hashDiff b" by (rule hashDiff_trim)
  with set_lookup[of s a i m st]
  have "map_of (cache (CommitCache_set s a i m st)) (hashDiff b)
     = Some \<lparr>intent = i, message = m, folder = cwd_name st, hash = hashDiff b, timestamp = s\<rparr>"
    by simp
  from get_hit[OF this, of g] assms(2) show ?thesis by simp
qed

section \<open>Facts about the retry loops and the orchestrator\<close>

lemma attempt_loop_state:
  "attempt_loop remote now h a sl st = (res, n, sl', st') \<Longrightarrow>
   st' = (case res of None \<Rightarrow> st | Some r \<Rightarrow> CommitCache_set now h (intent r) (message r) st)"
proof (induction remote now h a sl st rule: attempt_loop.induct)
  case (1 remote now diffHash attempt slept st)
  show ?case
  proof (cases "attempt \<le> maxRetries")
    case False
    with "1.prems" show ?thesis by (simp add: attempt_loop.simps)
  next
    case True
    show ?thesis
    proof (cases "request_result (remote attempt)")
      case (Inr result)
      with True "1.prems" show ?thesis by (auto simp: attempt_loop.simps)
    next
      case (Inl e)
      show ?thesis
      proof (cases "on_error attempt e")
        case (Continue ms)
        with True Inl "1.prems" "1.IH"(1)[OF True Inl Continue] show ?thesis
          by (simp add: attempt_loop.simps)
      next
        case Break
        with True Inl "1.prems" show ?thesis by (auto simp: attempt_loop.simps)
      next
        case FallThrough
        with True Inl "1.prems" "1.IH"(2)[OF True Inl FallThrough] show ?thesis
          by (simp add: attempt_loop.simps)
      qed
    qed
  qed
qed

lemma attempt_loop_all_fail:
  "\<forall>n. a \<le> n \<and> n \<le> maxRetries \<longrightarrow> isl (request_result (remote n)) \<Longrightarrow>
   fst (attempt_loop remote now h a sl st) = None"
proof (induction remote now h a sl st rule: attempt_loop.induct)
  case (1 remote now diffHash attempt slept st)
  show ?case
  proof (cases "attempt \<le> maxRetries")
    case False
    then show ?thesis by (simp add: attempt_loop.simps)
  next
    case True
    with "1.prems" have "isl (request_result (remote attempt))" by simp
    then obtain e where Inl: "request_result (remote attempt) = Inl e"
      by (cases "request_result (remote attempt)") auto
    have later: "\<forall>n. attempt + 1 \<le> n \<and> n \<le> maxRetries \<longrightarrow> isl (request_result (remote n))"
      using "1.prems" by simp
    show ?thesis
    proof (cases "on_error attempt e")
      case (Continue ms)
      with True Inl "1.IH"(1)[OF True Inl Continue later] show ?thesis
        by (simp add: attempt_loop.simps)
    next
      case Break
      with True Inl show ?thesis by (simp add: attempt_loop.simps)
    next
      case FallThrough
      with True Inl "1.IH"(2)[OF True Inl FallThrough later] show ?thesis
        by (simp add: attempt_loop.simps)
    qed
  qed
qed

lemma attempt_loop_requests:
  "a \<ge> 1 \<Longrightarrow> fst (snd (attempt_loop remote now h a sl st)) \<le> max (a - 1) maxRetries"
proof (induction remote now h a sl st rule: attempt_loop.induct)
  case (1 remote now diffHash attempt slept st)
  show ?case
  proof (cases "attempt \<le> maxRetries")
    case False
    then show ?thesis by (simp add: attempt_loop.simps)
  next
    case True
    show ?thesis
    proof (cases "request_result (remote attempt)")
      case (Inr result)
      with True show ?thesis by (simp add: attempt_loop.simps)
    next
      case (Inl e)
      show ?thesis
      proof (cases "on_error attempt e")
        case (Continue ms)
        with True Inl "1.IH"(1)[OF True Inl Continue] "1.prems" show ?thesis
          by (simp add: attempt_loop.simps)
      next
        case Break
        with True Inl show ?thesis by (simp add: attempt_loop.simps)
      next
        case FallThrough
        with True Inl "1.IH"(2)[OF True Inl FallThrough] "1.prems" show ?thesis
          by (simp add: attempt_loop.simps)
      qed
    qed
  qed
qed

lemma attempt_loop_Some:
  "fst (attempt_loop remote now h a sl st) = Some r \<Longrightarrow> \<exists>n. request_result (remote n) = Inr r"
proof (induction remote now h a sl st rule: attempt_loop.induct)
  case (1 remote now diffHash attempt slept st)
  show ?case
  proof (cases "attempt \<le> maxRetries")
    case False
    with "1.prems" show ?thesis by (simp add: attempt_loop.simps)
  next
    case True
    show ?thesis
    proof (cases "request_result (remote attempt)")
      case (Inr result)
      with True "1.prems" have "result = r" by (simp add: attempt_loop.simps)
      with Inr show ?thesis by blast
    next
      case (Inl e)
      show ?thesis
      proof (cases "on_error attempt e")
        case (Continue ms)
        with True Inl "1.prems" "1.IH"(1)[OF True Inl Continue] show ?thesis
          by (simp add: attempt_loop.simps)
      next
        case Break
        with True Inl "1.prems" show ?thesis by (simp add: attempt_loop.simps)
      next
        case FallThrough
        with True Inl "1.prems" "1.IH"(2)[OF True Inl FallThrough] show ?thesis
          by (simp add: attempt_loop.simps)
      qed
    qed
  qed
qed

lemma generate_hit:
  "fst (CommitCache_get g (sha1_hex diff) st) = Some c \<Longrightarrow>
   generateCommitMessage remote g s diff summary st =
     \<lparr>returned = FromCache c, requests = 0, sleeps = [], cache_after = st\<rparr>"
  using get_Some_state[of g "sha1_hex diff" st c]
  by (cases "CommitCache_get g (sha1_hex diff) st") (simp add: generateCommitMessage_def)

lemma generate_miss:
  assumes "fst (CommitCache_get g (sha1_hex diff) st) = None"
  shows "\<exists>r. returned (generateCommitMessage remote g s diff summary st) = Fresh r
       \<and> cache_after (generateCommitMessage remote g s diff summary st)
           = CommitCache_set s (sha1_hex diff) (intent r) (message r) (snd (CommitCache_get g (sha1_hex diff) st))"
proof -
  obtain st1 where g: "CommitCache_get g (sha1_hex diff) st = (None, st1)"
    using assms by (cases "CommitCache_get g (sha1_hex diff) st") simp
  obtain res n sl st2 where l: "attempt_loop remote s (sha1_hex diff) 1 [] st1 = (res, n, sl, st2)"
    by (cases "attempt_loop remote s (sha1_hex diff) 1 [] st1") auto
  from attempt_loop_state[OF l]
  have st2: "st2 = (case res of None \<Rightarrow> st1 | Some r \<Rightarrow> CommitCache_set s (sha1_hex diff) (intent r) (message r) st1)" .
  show ?thesis
  proof (cases res)
    case None
    with g l st2 show ?thesis
      by (simp add: generateCommitMessage_def generateFallbackCommit_def Let_def)
  next
    case (Some r)
    with g l st2 show ?thesis
      by (simp add: generateCommitMessage_def)
  qed
qed

lemma generate_fresh_cases:
  assumes "returned (generateCommitMessage remote g s diff summary st) = Fresh r"
  shows "(\<exists>n. request_result (remote n) = Inr r)
       \<or> r = \<lparr>intent = determineIntent (analyzeDiff diff summary) summary,
               message = generateMessage (analyzeDiff diff summary)
                           (determineIntent (analyzeDiff diff summary) summary) summary\<rparr>"
proof -
  obtain c st1 where g: "CommitCache_get g (sha1_hex diff) st = (c, st1)"
    by (cases "CommitCache_get g (sha1_hex diff) st") auto
  obtain res n sl st2 where l: "attempt_loop remote s (sha1_hex diff) 1 [] st1 = (res, n, sl, st2)"
    by (cases "attempt_loop remote s (sha1_hex diff) 1 [] st1") auto
  show ?thesis
  proof (cases c)
    case (Some x)
    with g assms show ?thesis by (simp add: generateCommitMessage_def)
  next
    case None
    show ?thesis
    proof (cases res)
      case (Some r')
      with None g l assms have "r' = r" by (simp add: generateCommitMessage_def)
      with Some l attempt_loop_Some[of remote s "sha1_hex diff" 1 "[]" st1 r] show ?thesis by simp
    next
      case N: None
      with None g l assms show ?thesis
        by (simp add: generateCommitMessage_def generateFallbackCommit_def Let_def)
    qed
  qed
qed

lemma attempt_loop_llm_all_fail:
  "\<forall>n. a \<le> n \<and> n \<le> maxRetries \<longrightarrow> isl (request_result (remote n)) \<Longrightarrow>
   fst (attempt_loop_llm remote now d a sl st) \<noteq> Inr (Some r)"
proof (induction remote now d a sl st rule: attempt_loop_llm.induct)
  case (1 remote now diff attempt slept st)
  show ?case
  proof (cases "attempt \<le> maxRetries")
    case False
    then show ?thesis by (simp add: attempt_loop_llm.simps)
  next
    case True
    with "1.prems" have "isl (request_result (remote attempt))" by simp
    then obtain e where Inl: "request_result (remote attempt) = Inl e"
      by (cases "request_result (remote attempt)") auto
    have later: "\<forall>n. attempt + 1 \<le> n \<and> n \<le> maxRetries \<longrightarrow> isl (request_result (remote n))"
      using "1.prems" by simp
    show ?thesis
    proof (cases "on_error_llm attempt e")
      case (Continue_llm ms)
      with True Inl "1.IH"(1)[OF True Inl Continue_llm later] show ?thesis
        by (simp add: attempt_loop_llm.simps)
    next
      case Break_llm
      with True Inl show ?thesis by (simp add: attempt_loop_llm.simps)
    next
      case FallThrough_llm
      with True Inl "1.IH"(2)[OF True Inl FallThrough_llm later] show ?thesis
        by (simp add: attempt_loop_llm.simps)
    next
      case (Throw_llm err)
      with True Inl show ?thesis by (simp add: attempt_loop_llm.simps)
    qed
  qed
qed

lemma generate_llm_all_fail:
  assumes miss: "fst (CommitCache_get g diff st) = None"
      and fail: "\<forall>n. 1 \<le> n \<and> n \<le> maxRetries \<longrightarrow> isl (request_result (remote n))"
  shows "isl (returned (generateCommitMessage_llm remote g s diff st))"
proof -
  obtain st1 where g: "CommitCache_get g diff st = (None, st1)"
    using miss by (cases "CommitCache_get g diff st") simp
  obtain res n sl st2 where l: "attempt_loop_llm remote s diff 1 [] st1 = (res, n, sl, st2)"
    by (cases "attempt_loop_llm remote s diff 1 [] st1") auto
  from attempt_loop_llm_all_fail[OF fail, of s diff "[]" st1] l
  have "\<forall>r. res \<noteq> Inr (Some r)" by simp
  then show ?thesis using g l
    by (cases res) (auto simp: generateCommitMessage_llm_def split: option.splits)
qed

lemma on_error_early:
  "attempt < maxRetries \<Longrightarrow>
   on_error attempt e = (if is_client_error e \<and> \<not> is_network_failure e then Break
                         else Continue (500 * 2 ^ attempt))"
  by (auto simp: on_error_def is_client_error_def is_network_failure_def split: option.splits)

lemma on_error_last:
  "\<not> attempt < maxRetries \<Longrightarrow> on_error attempt e = Break \<or> on_error attempt e = FallThrough"
  by (auto simp: on_error_def split: option.splits)

lemma request_failure_plain:
  "request_result (Resolved d) = Inl e \<Longrightarrow> \<not> isAxiosError e"
  by (auto simp: request_result_def parseResponse_def isAxiosError_def Let_def
           split: response_data.splits option.splits if_splits prod.splits)

text \<open>
  The key the orchestrator files a diff under: it hands the cache the SHA-1 digest of the
  untrimmed diff, in hexadecimal, so a call that missed the cache leaves its result under
  the SHA-256 digest of that SHA-1 digest.
\<close>

lemma miss_files_under_pipeline_key:
  assumes miss: "fst (CommitCache_get g (sha1_hex diff) st) = None"
  shows "map_of (cache (cache_after (generateCommitMessage remote g s diff summary st)))
               (sha256_hex (sha1_hex diff)) \<noteq> None"
proof -
  from generate_miss[OF miss, of remote s summary] obtain r where
    fresh: "returned (generateCommitMessage remote g s diff summary st) = Fresh r"
    and after: "cache_after (generateCommitMessage remote g s diff summary st)
       = CommitCache_set s (sha1_hex diff) (intent r) (message r)
           (snd (CommitCache_get g (sha1_hex diff) st))"
    by blast
  from after have "map_of (cache (cache_after (generateCommitMessage remote g s diff summary st)))
               (hashDiff (sha1_hex diff)) \<noteq> None"
    by (simp add: set_lookup)
  then show ?thesis by (simp add: hashDiff_pipeline)
qed

section \<open>Facts about messages\<close>

lemma length_show_nat: "0 < k \<Longrightarrow> n < 10 ^ k \<Longrightarrow> length (show_nat n) \<le> k"
proof (induction k arbitrary: n)
  case 0
  then show ?case by simp
next
  case (Suc k)
  show ?case
  proof (cases "n < 10")
    case True
    then show ?thesis by (simp add: show_nat.simps)
  next
    case False
    then have k: "0 < k" using Suc.prems by (cases k) auto
    have "n div 10 < 10 ^ k" using Suc.prems by (simp add: less_mult_imp_div_less mult.commute)
    from Suc.IH[OF k this] False show ?thesis
      by (subst show_nat.simps) simp
  qed
qed

lemma length_show_count:
  assumes "0 < n" "n \<le> MAX_SAFE_INTEGER"
  shows "length (show_count (Some n)) \<le> 16"
proof -
  have "nat n < 10 ^ 16" using assms by (simp add: MAX_SAFE_INTEGER_def)
  from length_show_nat[OF _ this] assms show ?thesis by (simp add: show_count_def)
qed

lemma show_count_1: "show_count (Some 1) = ''1''"
  by (simp add: show_count_def show_nat.simps digit_char_def)

lemma generateMessage_fixed:
  "\<not> (case total_files (or_empty summary) of None \<Rightarrow> False | Some n \<Rightarrow> n > 0) \<Longrightarrow>
   length (generateMessage analysis i summary) \<le> 70"
  by (simp add: generateMessage_def Let_def)

lemma generateMessage_counted:
  assumes "total_files (or_empty summary) = Some n" "0 < n" "n \<le> MAX_SAFE_INTEGER"
  shows "length (generateMessage analysis i summary) \<le> 70"
proof -
  have c: "length (show_count (Some n)) \<le> 16" using assms by (simp add: length_show_count)
  show ?thesis using assms(1,2) c
    by (simp add: generateMessage_def Let_def show_count_1)
qed

lemma generateMessage_le_70:
  "(case total_files (or_empty summary) of None \<Rightarrow> True | Some n \<Rightarrow> n \<le> MAX_SAFE_INTEGER) \<Longrightarrow>
   length (generateMessage analysis i summary) \<le> 70"
proof (cases "total_files (or_empty summary)")
  case None
  then show ?thesis using generateMessage_fixed[of summary analysis i] by simp
next
  case (Some n)
  assume b: "case total_files (or_empty summary) of None \<Rightarrow> True | Some n \<Rightarrow> n \<le> MAX_SAFE_INTEGER"
  show ?thesis
  proof (cases "0 < n")
    case True
    with Some b generateMessage_counted[of summary n analysis i] show ?thesis by simp
  next
    case False
    with Some generateMessage_fixed[of summary analysis i] show ?thesis by simp
  qed
qed

lemma parseResponse_message:
  "parseResponse response = Inr s \<Longrightarrow>
   message s = (let m = snd (parse_lines (split_on newline (trim response)) ([], []))
                in if length m > 70 then take 67 m @ ''...'' else m)
   \<and> length (message s) \<le> 70 \<and> intent s \<noteq> [] \<and> message s \<noteq> []"
  by (auto simp: parseResponse_def Let_def split: prod.splits if_splits)

lemma request_result_parsed:
  "request_result out = Inr r \<Longrightarrow> \<exists>s. parseResponse s = Inr r"
  by (auto simp: request_result_def split: attempt_outcome.splits response_data.splits option.splits if_splits)

lemma bounded_delete:
  "list_all (\<lambda>(k, e). length (message e) \<le> 70) al \<Longrightarrow>
   list_all (\<lambda>(k, e). length (message e) \<le> 70) (AList.delete h al)"
  by (induction al) auto

lemma bounded_update:
  "list_all (\<lambda>(k, e). length (message e) \<le> 70) al \<Longrightarrow> length (message v) \<le> 70 \<Longrightarrow>
   list_all (\<lambda>(k, e). length (message e) \<le> 70) (AList.update h v al)"
  by (induction al) auto

lemma bounded_set:
  "bounded_messages st \<Longrightarrow> length m \<le> 70 \<Longrightarrow> bounded_messages (CommitCache_set now d i m st)"
  by (simp add: bounded_messages_def CommitCache_set_def Let_def bounded_update)

lemma bounded_get: "bounded_messages st \<Longrightarrow> bounded_messages (snd (CommitCache_get now d st))"
  by (auto simp: bounded_messages_def CommitCache_get_def Let_def bounded_delete split: option.splits)

lemma bounded_hit:
  assumes "bounded_messages st" "fst (CommitCache_get now d st) = Some c"
  shows "length (message c) \<le> 70"
proof -
  from assms(2) obtain e where e: "map_of (cache st) (hashDiff d) = Some e"
    and c: "c = \<lparr>intent = intent e, message = message e, folder = folder e\<rparr>"
    by (auto simp: get_Some_iff)
  from e have "(hashDiff d, e) \<in> set (cache st)" by (rule map_of_SomeD)
  with assms(1) have "length (message e) \<le> 70"
    by (auto simp: bounded_messages_def list_all_iff)
  with c show ?thesis by simp
qed

lemma generate_bounded:
  assumes b: "case total_files (or_empty summary) of None \<Rightarrow> True | Some n \<Rightarrow> n \<le> MAX_SAFE_INTEGER"
      and inv: "bounded_messages st"
  shows "length (message (suggestion_of (returned (generateCommitMessage remote g s diff summary st)))) \<le> 70
       \<and> bounded_messages (cache_after (generateCommitMessage remote g s diff summary st))"
proof (cases "fst (CommitCache_get g (sha1_hex diff) st)")
  case (Some c)
  from bounded_hit[OF inv Some] generate_hit[OF Some, of remote s summary] inv show ?thesis
    by (simp add: suggestion_of_def)
next
  case None
  from generate_miss[OF None, of remote s summary] obtain r where
    fresh: "returned (generateCommitMessage remote g s diff summary st) = Fresh r"
    and after: "cache_after (generateCommitMessage remote g s diff summary st)
       = CommitCache_set s (sha1_hex diff) (intent r) (message r)
           (snd (CommitCache_get g (sha1_hex diff) st))"
    by blast
  from generate_fresh_cases[OF fresh] have len: "length (message r) \<le> 70"
  proof
    assume "\<exists>n. request_result (remote n) = Inr r"
    then obtain x where "parseResponse x = Inr r" using request_result_parsed by blast
    from parseResponse_message[OF this] show ?thesis by blast
  next
    assume "r = \<lparr>intent = determineIntent (analyzeDiff diff summary) summary,
               message = generateMessage (analyzeDiff diff summary)
                           (determineIntent (analyzeDiff diff summary) summary) summary\<rparr>"
    with generateMessage_le_70[OF b] show ?thesis by simp
  qed
  from len fresh after inv show ?thesis
    by (simp add: suggestion_of_def bounded_set bounded_get)
qed

section \<open>The cache of a running program is well keyed\<close>

lemma well_keyed_load_fold:
  "list_all (\<lambda>(k, e). hash e = k) c \<Longrightarrow>
   list_all (\<lambda>(k, e). hash e = k)
     (fold (\<lambda>entry c. if now - timestamp entry < CACHE_MAX_AGE
                        then AList.update (hash entry) entry c else c) es c)"
  by (induction es arbitrary: c) (simp_all add: well_keyed_update)

lemma well_keyed_new: "well_keyed (new_CommitCache now on_disk w dir)"
proof (cases on_disk)
  case (Entries es)
  have "list_all (\<lambda>(k, e). hash e = k) ([] :: (string \<times> CacheEntry) list)" by simp
  from well_keyed_load_fold[OF this, of now es] Entries show ?thesis
    by (simp add: well_keyed_def new_CommitCache_def loadCache_def)
qed (simp_all add: well_keyed_def new_CommitCache_def loadCache_def)

lemma well_keyed_set: "well_keyed st \<Longrightarrow> well_keyed (CommitCache_set now d i m st)"
  by (simp add: well_keyed_def CommitCache_set_def Let_def well_keyed_update)

lemma well_keyed_get: "well_keyed st \<Longrightarrow> well_keyed (snd (CommitCache_get now d st))"
  by (auto simp: well_keyed_def CommitCache_get_def Let_def well_keyed_delete split: option.splits)

lemma well_keyed_clear: "well_keyed (snd (CommitCache_clear st))"
  by (simp add: well_keyed_def CommitCache_clear_def)

lemma well_keyed_generate:
  assumes "well_keyed st"
  shows "well_keyed (cache_after (generateCommitMessage remote g s diff summary st))"
proof (cases "fst (CommitCache_get g (sha1_hex diff) st)")
  case (Some c)
  from generate_hit[OF Some] assms show ?thesis by simp
next
  case None
  from generate_miss[OF None, of remote s summary] obtain r where
    fresh: "returned (generateCommitMessage remote g s diff summary st) = Fresh r"
    and after: "cache_after (generateCommitMessage remote g s diff summary st)
       = CommitCache_set s (sha1_hex diff) (intent r) (message r)
           (snd (CommitCache_get g (sha1_hex diff) st))"
    by blast
  from assms show ?thesis by (simp add: after well_keyed_set well_keyed_get)
qed

section \<open>A cache written by one process and loaded by the next\<close>

lemma distinct_keys_set: "distinct_keys st \<Longrightarrow> distinct_keys (CommitCache_set now d i m st)"
  by (simp add: distinct_keys_def CommitCache_set_def Let_def distinct_update)

lemma distinct_keys_get: "distinct_keys st \<Longrightarrow> distinct_keys (snd (CommitCache_get now d st))"
  by (auto simp: distinct_keys_def CommitCache_get_def Let_def distinct_delete split: option.splits)

lemma get_writable [simp]: "writable (snd (CommitCache_get now d st)) = writable st"
  by (auto simp: CommitCache_get_def Let_def split: option.splits)

lemma set_disk:
  "writable st \<Longrightarrow> disk (CommitCache_set now d i m st)
     = Entries (map snd (cache (CommitCache_set now d i m st)))"
  by (simp add: CommitCache_set_def Let_def saveCache_def)

lemma load_fold_lookup:
  assumes "distinct (map fst al)" "list_all (\<lambda>(k, e). hash e = k) al"
  shows "map_of (fold (\<lambda>entry c. if now - timestamp entry < CACHE_MAX_AGE
                                   then AList.update (hash entry) entry c else c)
                      (map snd al) c) k
         = (case map_of al k of
              Some e \<Rightarrow> if now - timestamp e < CACHE_MAX_AGE then Some e else map_of c k
            | None \<Rightarrow> map_of c k)"
  using assms
proof (induction al arbitrary: c)
  case Nil
  then show ?case by simp
next
  case (Cons p rest)
  obtain k1 e1 where p: "p = (k1, e1)" by (cases p)
  from Cons.prems p have h: "hash e1 = k1" and d: "distinct (map fst rest)"
    and k: "list_all (\<lambda>(k, e). hash e = k) rest" and fresh_key: "k1 \<notin> fst ` set rest"
    by auto
  from fresh_key have none: "map_of rest k1 = None"
    by (simp add: map_of_eq_None_iff)
  let ?c' = "if now - timestamp e1 < CACHE_MAX_AGE then AList.update (hash e1) e1 c else c"
  have c': "map_of ?c' k = (if now - timestamp e1 < CACHE_MAX_AGE \<and> k = k1 then Some e1 else map_of c k)"
    by (simp add: update_conv' h)
  from Cons.IH[OF d k, of ?c'] p none c' show ?case
    by (auto split: option.splits)
qed

lemma reload_then_hit:
  assumes miss: "fst (CommitCache_get g1 (sha1_hex diff) st) = None"
      and keyed: "well_keyed st"
      and dist: "distinct_keys st"
      and w: "writable st"
      and at_load: "t0 - s1 < CACHE_MAX_AGE"
      and window: "g2 - s1 \<le> CACHE_MAX_AGE"
  shows "suggestion_of (returned (generateCommitMessage remote2 g2 s2 diff summary
            (new_CommitCache t0
               (disk (cache_after (generateCommitMessage remote1 g1 s1 diff summary st))) w2 dir2)))
           = suggestion_of (returned (generateCommitMessage remote1 g1 s1 diff summary st))
       \<and> requests (generateCommitMessage remote2 g2 s2 diff summary
            (new_CommitCache t0
               (disk (cache_after (generateCommitMessage remote1 g1 s1 diff summary st))) w2 dir2)) = 0"
proof -
  let ?first = "generateCommitMessage remote1 g1 s1 diff summary st"
  let ?st1 = "snd (CommitCache_get g1 (sha1_hex diff) st)"
  let ?key = "hashDiff (sha1_hex diff)"
  from generate_miss[OF miss, of remote1 s1 summary] obtain r where
    r: "returned ?first = Fresh r"
    and after: "cache_after ?first = CommitCache_set s1 (sha1_hex diff) (intent r) (message r) ?st1"
    by blast
  let ?e = "\<lparr>intent = intent r, message = message r, folder = cwd_name ?st1,
             hash = ?key, timestamp = s1\<rparr>"
  let ?al = "cache (cache_after ?first)"
  have e: "map_of ?al ?key = Some ?e"
    by (simp add: after set_lookup)
  have k: "list_all (\<lambda>(k, e). hash e = k) ?al"
    using well_keyed_set[OF well_keyed_get[OF keyed]] by (simp add: after well_keyed_def)
  have d: "distinct (map fst ?al)"
    using distinct_keys_set[OF distinct_keys_get[OF dist]] by (simp add: after distinct_keys_def)
  have on_disk: "disk (cache_after ?first) = Entries (map snd ?al)"
    using w by (simp add: after set_disk)
  let ?st2 = "new_CommitCache t0 (disk (cache_after ?first)) w2 dir2"
  have "map_of (cache ?st2) ?key
          = (case map_of ?al ?key of
               Some e \<Rightarrow> if t0 - timestamp e < CACHE_MAX_AGE then Some e else map_of [] ?key
             | None \<Rightarrow> map_of [] ?key)"
    using load_fold_lookup[OF d k, of t0 "[]" ?key]
    by (simp add: new_CommitCache_def loadCache_def on_disk)
  with e at_load have loaded: "map_of (cache ?st2) ?key = Some ?e" by simp
  from window have "g2 - timestamp ?e \<le> CACHE_MAX_AGE" by simp
  from get_hit[OF loaded this]
  have "fst (CommitCache_get g2 (sha1_hex diff) ?st2)
          = Some \<lparr>intent = intent r, message = message r, folder = cwd_name ?st1\<rparr>" by simp
  from generate_hit[OF this, of remote2 s2 summary] r show ?thesis
    by (simp add: suggestion_of_def)
qed

lemma distinct_keys_load_fold:
  "distinct (map fst c) \<Longrightarrow>
   distinct (map fst (fold (\<lambda>entry c. if now - timestamp entry < CACHE_MAX_AGE
                        then AList.update (hash entry) entry c else c) es c))"
  by (induction es arbitrary: c) (simp_all add: distinct_update)

lemma distinct_keys_new: "distinct_keys (new_CommitCache now on_disk w dir)"
proof (cases on_disk)
  case (Entries es)
  have "distinct (map fst ([] :: (string \<times> CacheEntry) list))" by simp
  from distinct_keys_load_fold[OF this, of now es] Entries show ?thesis
    by (simp add: distinct_keys_def new_CommitCache_def loadCache_def)
qed (simp_all add: distinct_keys_def new_CommitCache_def loadCache_def)

section \<open>Evaluations on the example data\<close>

lemma analyzeDiff_plus_x:
  "analyzeDiff ''+x'' None = \<lparr>hasBugFix = False, hasTestFix = False, hasNewFunction = False,
     hasNewClass = False, hasNewEndpoint = False, hasNewComponent = False, hasRefactor = False,
     hasRename = False, hasMovedCode = False, hasDocsChange = False, hasCommentChange = False,
     hasTestChange = False, hasDeletions = False, hasStyleChange = False,
     hasWhitespaceOnly = False, hasConfigChange = False, hasDependencyChange = False,
     additions = 1, deletions = 0, hasChanges = True\<rparr>"
  by code_simp

lemma fallback_plus_x:
  "fst (generateFallbackCommit now ''+x'' None st) = \<lparr>intent = ''Update'', message = ''update code''\<rparr>"
  by (simp add: generateFallbackCommit_def Let_def analyzeDiff_plus_x determineIntent_def
        generateMessage_def or_empty_def)

lemma parse_long_reply:
  "parseResponse ex_long_reply
     = Inr \<lparr>intent = ''Feature'', message = replicate 67 (CHR ''a'') @ ''...''\<rparr>"
  by code_simp

lemma key_plus_x:
  "hashDiff (sha1_hex ''+x'') = ''d9e4ee4a8fa96cdfcfd07c76ef7a8139563bbc15f5bc3c646b36ab690bd59ff5''"
  by code_simp

lemma key_plus_x_newline:
  "hashDiff (sha1_hex (''+x'' @ [newline]))
     = ''ed7cc760b1a2caa995ce9e508f3033812dac206d283bb6c07c28928f90e62dc3''"
  by code_simp

lemma trim_plus_x: "trim ''+x'' = trim (''+x'' @ [newline])"
  by (simp add: trim_def isWhiteSpace_def newline_def)

text \<open>The heuristic classifier on four small diffs: bug vocabulary alone, a new exported
  function, whitespace and punctuation only, and a change to a README.\<close>

lemma bug_vocabulary_is_bug_fix:
  "fst (generateFallbackCommit now ''+fix crash'' None st)
     = \<lparr>intent = ''Bug Fix'', message = ''fix issues''\<rparr>"
proof -
  have "determineIntent (analyzeDiff ''+fix crash'' None) None = ''Bug Fix''"
    by code_simp
  moreover have "generateMessage (analyzeDiff ''+fix crash'' None) ''Bug Fix'' None = ''fix issues''"
    by code_simp
  ultimately show ?thesis by (simp add: generateFallbackCommit_def Let_def)
qed

lemma new_function_is_feature:
  "determineIntent (analyzeDiff ''+export function foo() {'' None) None = ''Feature''
   \<and> generateMessage (analyzeDiff ''+export function foo() {'' None) ''Feature'' None
        = ''add new functionality''"
  by code_simp

lemma whitespace_only_is_style:
  "determineIntent (analyzeDiff (''+  '' @ [newline] @ ''-  }'') None) None = ''Style''
   \<and> generateMessage (analyzeDiff (''+  '' @ [newline] @ ''-  }'') None) ''Style'' None
        = ''format and style code''"
  by code_simp

lemma readme_is_documentation:
  "extractFilesFromDiff (''diff --git a/README.md b/README.md'' @ [newline] @ ''+hello'')
     = [''README.md'']
   \<and> determineIntent
         (analyzeDiff (''diff --git a/README.md b/README.md'' @ [newline] @ ''+hello'') None) None
        = ''Documentation''"
  by code_simp

section \<open>The claims\<close>

subsection \<open>C1: the remote classifier fails on every attempt\<close>

text \<open>
  Claim C1, as amended. When every request fails and the cache has no live entry for the
  diff, the \<open>generateCommitMessage(diff, summary)\<close> of the client with the heuristic
  fallback does not raise: it returns the suggestion \<open>generateFallbackCommit\<close> computes from
  the same diff and summary, that is the intent \<open>determineIntent\<close> and the message
  \<open>generateMessage\<close> give for \<open>analyzeDiff diff summary\<close>, and leaves the cache as the fallback
  stored it. The \<open>generateCommitMessage(diff)\<close> of \<open>services/llm.ts\<close> has no fallback: in the
  same situation it raises an error to its caller.
\<close>

theorem fallback_when_remote_fails:
  assumes fail: "\<forall>n. 1 \<le> n \<and> n \<le> maxRetries \<longrightarrow> isl (request_result (remote n))"
  shows "(fst (CommitCache_get now_get (sha1_hex diff) st) = None \<longrightarrow>
            returned (generateCommitMessage remote now_get now_set diff summary st)
              = Fresh (fst (generateFallbackCommit now_set diff summary
                              (snd (CommitCache_get now_get (sha1_hex diff) st))))
          \<and> cache_after (generateCommitMessage remote now_get now_set diff summary st)
              = snd (generateFallbackCommit now_set diff summary
                              (snd (CommitCache_get now_get (sha1_hex diff) st)))
          \<and> fst (generateFallbackCommit now_set diff summary
                              (snd (CommitCache_get now_get (sha1_hex diff) st)))
              = \<lparr>intent = determineIntent (analyzeDiff diff summary) summary,
                 message = generateMessage (analyzeDiff diff summary)
                             (determineIntent (analyzeDiff diff summary) summary) summary\<rparr>)
       \<and> (fst (CommitCache_get now_get diff st) = None \<longrightarrow>
            isl (returned (generateCommitMessage_llm remote now_get now_set diff st)))"
proof (intro conjI impI)
  assume miss: "fst (CommitCache_get now_get (sha1_hex diff) st) = None"
  obtain st1 where g: "CommitCache_get now_get (sha1_hex diff) st = (None, st1)"
    using miss by (cases "CommitCache_get now_get (sha1_hex diff) st") simp
  obtain res n sl st2 where l: "attempt_loop remote now_set (sha1_hex diff) 1 [] st1 = (res, n, sl, st2)"
    by (cases "attempt_loop remote now_set (sha1_hex diff) 1 [] st1") auto
  from attempt_loop_all_fail[OF fail, of now_set "sha1_hex diff" "[]" st1] l have res: "res = None"
    by simp
  from attempt_loop_state[OF l] res have st2: "st2 = st1" by simp
  have whole: "generateCommitMessage remote now_get now_set diff summary st =
     \<lparr>returned = Fresh (fst (generateFallbackCommit now_set diff summary st1)), requests = n,
      sleeps = sl, cache_after = snd (generateFallbackCommit now_set diff summary st1)\<rparr>"
    using g l res st2 by (simp add: generateCommitMessage_def split: prod.splits)
  from whole g show "returned (generateCommitMessage remote now_get now_set diff summary st)
              = Fresh (fst (generateFallbackCommit now_set diff summary
                              (snd (CommitCache_get now_get (sha1_hex diff) st))))" by simp
  from whole g show "cache_after (generateCommitMessage remote now_get now_set diff summary st)
              = snd (generateFallbackCommit now_set diff summary
                              (snd (CommitCache_get now_get (sha1_hex diff) st)))" by simp
  show "fst (generateFallbackCommit now_set diff summary
                              (snd (CommitCache_get now_get (sha1_hex diff) st)))
              = \<lparr>intent = determineIntent (analyzeDiff diff summary) summary,
                 message = generateMessage (analyzeDiff diff summary)
                             (determineIntent (analyzeDiff diff summary) summary) summary\<rparr>"
    by (simp add: generateFallbackCommit_def Let_def)
next
  assume "fst (CommitCache_get now_get diff st) = None"
  from generate_llm_all_fail[OF this fail]
  show "isl (returned (generateCommitMessage_llm remote now_get now_set diff st))" .
qed

text \<open>
  The theorem at the diff \<open>+x\<close>, an empty cache and an endpoint that answers 500 three
  times: the fallback client returns \<open>Update: update code\<close>, the other one an error.
\<close>

theorem fallback_when_remote_fails_witness:
  "isl (request_result (server_down 1)) \<and> isl (request_result (server_down 2))
   \<and> isl (request_result (server_down 3))
   \<and> fst (CommitCache_get 10 (sha1_hex ''+x'') ex_empty) = None
   \<and> returned (generateCommitMessage server_down 10 20 ''+x'' None ex_empty)
        = Fresh \<lparr>intent = ''Update'', message = ''update code''\<rparr>
   \<and> fst (CommitCache_get 10 ''+x'' ex_empty) = None
   \<and> isl (returned (generateCommitMessage_llm server_down 10 20 ''+x'' ex_empty))"
proof -
  have down: "\<And>n. isl (request_result (server_down n))"
    by (simp add: server_down_def request_result_def)
  then have fail: "\<forall>n. 1 \<le> n \<and> n \<le> maxRetries \<longrightarrow> isl (request_result (server_down n))"
    by simp
  have miss: "fst (CommitCache_get 10 (sha1_hex ''+x'') ex_empty) = None"
    by (simp add: CommitCache_get_def ex_empty_def)
  have miss_llm: "fst (CommitCache_get 10 ''+x'' ex_empty) = None"
    by (simp add: CommitCache_get_def ex_empty_def)
  from fallback_when_remote_fails[OF fail, of 10 "''+x''" ex_empty 20 None] miss miss_llm down
  show ?thesis by (simp add: fallback_plus_x)
qed

text \<open>
  Claim C1 as stated fails on \<open>services/llm.ts\<close>: after three 500 responses its
  \<open>generateCommitMessage\<close> throws \<open>Failed to generate commit message\<close> instead of returning
  a suggestion.
\<close>

theorem llm_client_raises_after_three_500:
  "returned (generateCommitMessage_llm server_down 10 20 ''+x'' ex_empty)
     = Inl (Error ''Failed to generate commit message. Please check your API configuration.'')"
  by code_simp

subsection \<open>C2: which failures are retried\<close>

text \<open>
  Claim C2, as amended. A failed attempt before the last one ends the loop only when the
  failure is an HTTP error response with a status below 500 other than 429 (and without
  one of the network codes \<open>ECONNREFUSED\<close>, \<open>ETIMEDOUT\<close>); after every other failure the loop
  sleeps \<open>500 * 2 ^ attempt\<close> ms and makes the next request. The third attempt is the last
  whatever its failure. A response that resolves but is malformed (no body, no \<open>intent\<close>,
  a label missing) is never such a client error, so it is retried like a 5xx.
\<close>

theorem retry_policy:
  assumes failed: "request_result (remote attempt) = Inl e"
  shows "(attempt < maxRetries \<longrightarrow>
            attempt_loop remote now h attempt slept st =
              (if is_client_error e \<and> \<not> is_network_failure e then (None, attempt, slept, st)
               else attempt_loop remote now h (attempt + 1) (slept @ [500 * 2 ^ attempt]) st))
       \<and> (attempt = maxRetries \<longrightarrow>
            attempt_loop remote now h attempt slept st = (None, attempt, slept, st))
       \<and> (\<forall>d. remote attempt = Resolved d \<longrightarrow> \<not> is_client_error e)"
proof (intro conjI impI allI)
  assume a: "attempt < maxRetries"
  then have le: "attempt \<le> maxRetries" by simp
  show "attempt_loop remote now h attempt slept st =
              (if is_client_error e \<and> \<not> is_network_failure e then (None, attempt, slept, st)
               else attempt_loop remote now h (attempt + 1) (slept @ [500 * 2 ^ attempt]) st)"
    using le failed on_error_early[OF a, of e]
    by (subst attempt_loop.simps) simp
next
  assume a: "attempt = maxRetries"
  then have n: "\<not> attempt < maxRetries" by simp
  have next_out: "attempt_loop remote now h (attempt + 1) slept st = (None, attempt, slept, st)"
    using a by (subst attempt_loop.simps) simp
  from on_error_last[OF n, of e] show "attempt_loop remote now h attempt slept st = (None, attempt, slept, st)"
  proof
    assume "on_error attempt e = Break"
    with a failed show ?thesis by (subst attempt_loop.simps) simp
  next
    assume "on_error attempt e = FallThrough"
    with a failed next_out show ?thesis by (subst attempt_loop.simps) simp
  qed
next
  fix d assume "remote attempt = Resolved d"
  with failed request_failure_plain[of d e] show "\<not> is_client_error e"
    by (simp add: is_client_error_def)
qed

text \<open>
  The theorem at a reply without labels (first and third attempt) and at a 404: the
  unlabelled reply is followed by a second request after 1000 ms, the 404 ends the call.
\<close>

theorem retry_policy_witness:
  "request_result (unlabelled_reply 1) = Inl (Error ''Invalid response format from LLM'')
   \<and> attempt_loop unlabelled_reply 20 (sha1_hex ''+x'') 1 [] ex_empty
        = attempt_loop unlabelled_reply 20 (sha1_hex ''+x'') 2 [1000] ex_empty
   \<and> attempt_loop unlabelled_reply 20 (sha1_hex ''+x'') 3 [1000, 2000] ex_empty
        = (None, 3, [1000, 2000], ex_empty)
   \<and> request_result (not_found 1) = Inl (AxiosError (Some 404) None)
   \<and> attempt_loop not_found 20 (sha1_hex ''+x'') 1 [] ex_empty = (None, 1, [], ex_empty)"
proof -
  have u: "\<And>n. request_result (unlabelled_reply n) = Inl (Error ''Invalid response format from LLM'')"
    by (simp add: unlabelled_reply_def request_result_def parseResponse_def trim_def
          isWhiteSpace_def split_on_def startsWith_def newline_def)
  have nf: "request_result (not_found 1) = Inl (AxiosError (Some 404) None)"
    by (simp add: not_found_def request_result_def)
  have plain: "\<not> is_client_error (Error ''Invalid response format from LLM'')"
    by (simp add: is_client_error_def isAxiosError_def)
  have client: "is_client_error (AxiosError (Some 404) None)
                \<and> \<not> is_network_failure (AxiosError (Some 404) None)"
    by (simp add: is_client_error_def is_network_failure_def isAxiosError_def
          response_status_def error_code_def)
  from retry_policy[of unlabelled_reply 1 "Error ''Invalid response format from LLM''" 20
      "sha1_hex ''+x''" "[]" ex_empty, OF u[of 1]] plain
  have first: "attempt_loop unlabelled_reply 20 (sha1_hex ''+x'') 1 [] ex_empty
        = attempt_loop unlabelled_reply 20 (sha1_hex ''+x'') 2 [1000] ex_empty"
    by (simp add: maxRetries_def numeral_2_eq_2)
  from retry_policy[of unlabelled_reply 3 "Error ''Invalid response format from LLM''" 20
      "sha1_hex ''+x''" "[1000, 2000]" ex_empty, OF u[of 3]]
  have last: "attempt_loop unlabelled_reply 20 (sha1_hex ''+x'') 3 [1000, 2000] ex_empty
        = (None, 3, [1000, 2000], ex_empty)"
    by (simp add: maxRetries_def)
  from retry_policy[of not_found 1 "AxiosError (Some 404) None" 20
      "sha1_hex ''+x''" "[]" ex_empty, OF nf] client
  have stop: "attempt_loop not_found 20 (sha1_hex ''+x'') 1 [] ex_empty = (None, 1, [], ex_empty)"
    by (simp add: maxRetries_def)
  from u[of 1] first last nf stop show ?thesis by simp
qed

text \<open>
  Claim C2 as stated fails: when every reply lacks the labels, the call does not end
  after the first attempt but makes all three requests.
\<close>

theorem unlabelled_reply_is_retried:
  "requests (generateCommitMessage unlabelled_reply 10 20 ''+x'' None ex_empty) = 3"
  by code_simp

subsection \<open>C3: the same diff twice\<close>

text \<open>
  Claim C3. A call of \<open>generateCommitMessage\<close> always leaves an entry for the diff in the
  cache (stored at the time of the call when the lookup missed). If a second call with the
  same diff and summary looks the cache up while that entry is within the 30-day TTL, it
  returns the same intent and message as the first and sends no request to the endpoint,
  whatever the endpoint would answer. The same holds when the second call is made by a
  new process: if the first call missed the cache and could write the cache file, a
  process that loads the file while the entry is younger than 30 days answers the second
  call from the cache. The result of the second call is the cached object,
  which carries the \<open>folder\<close> field as well (claim C10); the \<open>CommitSuggestion\<close> it holds is
  the one compared.
\<close>

theorem repeated_call_within_ttl:
  "(\<exists>e. map_of (cache (cache_after (generateCommitMessage remote1 g1 s1 diff summary st)))
              (hashDiff (sha1_hex diff)) = Some e
      \<and> (fst (CommitCache_get g1 (sha1_hex diff) st) = None \<longrightarrow> timestamp e = s1)
      \<and> (g2 - timestamp e \<le> CACHE_MAX_AGE \<longrightarrow>
           suggestion_of (returned (generateCommitMessage remote2 g2 s2 diff summary
               (cache_after (generateCommitMessage remote1 g1 s1 diff summary st))))
             = suggestion_of (returned (generateCommitMessage remote1 g1 s1 diff summary st))
         \<and> requests (generateCommitMessage remote2 g2 s2 diff summary
               (cache_after (generateCommitMessage remote1 g1 s1 diff summary st))) = 0))
   \<and> (fst (CommitCache_get g1 (sha1_hex diff) st) = None \<and> well_keyed st \<and> distinct_keys st
        \<and> writable st \<and> t0 - s1 < CACHE_MAX_AGE \<and> g2 - s1 \<le> CACHE_MAX_AGE \<longrightarrow>
        suggestion_of (returned (generateCommitMessage remote2 g2 s2 diff summary
            (new_CommitCache t0
               (disk (cache_after (generateCommitMessage remote1 g1 s1 diff summary st))) w2 dir2)))
           = suggestion_of (returned (generateCommitMessage remote1 g1 s1 diff summary st))
        \<and> requests (generateCommitMessage remote2 g2 s2 diff summary
            (new_CommitCache t0
               (disk (cache_after (generateCommitMessage remote1 g1 s1 diff summary st))) w2 dir2)) = 0)"
proof (rule conjI)
  show "\<exists>e. map_of (cache (cache_after (generateCommitMessage remote1 g1 s1 diff summary st)))
              (hashDiff (sha1_hex diff)) = Some e
      \<and> (fst (CommitCache_get g1 (sha1_hex diff) st) = None \<longrightarrow> timestamp e = s1)
      \<and> (g2 - timestamp e \<le> CACHE_MAX_AGE \<longrightarrow>
           suggestion_of (returned (generateCommitMessage remote2 g2 s2 diff summary
               (cache_after (generateCommitMessage remote1 g1 s1 diff summary st))))
             = suggestion_of (returned (generateCommitMessage remote1 g1 s1 diff summary st))
         \<and> requests (generateCommitMessage remote2 g2 s2 diff summary
               (cache_after (generateCommitMessage remote1 g1 s1 diff summary st))) = 0)"
  proof (cases "fst (CommitCache_get g1 (sha1_hex diff) st)")
    case (Some c)
    let ?first = "generateCommitMessage remote1 g1 s1 diff summary st"
    have first: "?first = \<lparr>returned = FromCache c, requests = 0, sleeps = [], cache_after = st\<rparr>"
      by (rule generate_hit[OF Some])
    from Some obtain e where e: "map_of (cache st) (hashDiff (sha1_hex diff)) = Some e"
        and c: "c = \<lparr>intent = intent e, message = message e, folder = folder e\<rparr>"
      by (auto simp: get_Some_iff)
    have "g2 - timestamp e \<le> CACHE_MAX_AGE \<longrightarrow>
          generateCommitMessage remote2 g2 s2 diff summary st
            = \<lparr>returned = FromCache c, requests = 0, sleeps = [], cache_after = st\<rparr>"
    proof
      assume "g2 - timestamp e \<le> CACHE_MAX_AGE"
      from get_hit[OF e this] c have "fst (CommitCache_get g2 (sha1_hex diff) st) = Some c" by simp
      from generate_hit[OF this] show "generateCommitMessage remote2 g2 s2 diff summary st
            = \<lparr>returned = FromCache c, requests = 0, sleeps = [], cache_after = st\<rparr>" .
    qed
    with e Some show ?thesis by (auto simp: first)
  next
    case None
    let ?first = "generateCommitMessage remote1 g1 s1 diff summary st"
    let ?st1 = "snd (CommitCache_get g1 (sha1_hex diff) st)"
    from generate_miss[OF None, of remote1 s1 summary] obtain r where
      r: "returned ?first = Fresh r"
      and after: "cache_after ?first = CommitCache_set s1 (sha1_hex diff) (intent r) (message r) ?st1"
      by blast
    let ?e = "\<lparr>intent = intent r, message = message r, folder = cwd_name ?st1,
               hash = hashDiff (sha1_hex diff), timestamp = s1\<rparr>"
    have e: "map_of (cache (cache_after ?first)) (hashDiff (sha1_hex diff)) = Some ?e"
      by (simp add: after set_lookup)
    have "g2 - timestamp ?e \<le> CACHE_MAX_AGE \<longrightarrow>
          suggestion_of (returned (generateCommitMessage remote2 g2 s2 diff summary (cache_after ?first)))
            = suggestion_of (returned ?first)
          \<and> requests (generateCommitMessage remote2 g2 s2 diff summary (cache_after ?first)) = 0"
    proof
      assume w: "g2 - timestamp ?e \<le> CACHE_MAX_AGE"
      from get_hit[OF e w]
      have "fst (CommitCache_get g2 (sha1_hex diff) (cache_after ?first))
              = Some \<lparr>intent = intent r, message = message r, folder = cwd_name ?st1\<rparr>" by simp
      from generate_hit[OF this, of remote2 s2 summary] r
      show "suggestion_of (returned (generateCommitMessage remote2 g2 s2 diff summary (cache_after ?first)))
            = suggestion_of (returned ?first)
          \<and> requests (generateCommitMessage remote2 g2 s2 diff summary (cache_after ?first)) = 0"
        by (simp add: suggestion_of_def)
    qed
    with e show ?thesis by (intro exI[of _ ?e]) simp
  qed
next
  show "fst (CommitCache_get g1 (sha1_hex diff) st) = None \<and> well_keyed st \<and> distinct_keys st
        \<and> writable st \<and> t0 - s1 < CACHE_MAX_AGE \<and> g2 - s1 \<le> CACHE_MAX_AGE \<longrightarrow>
        suggestion_of (returned (generateCommitMessage remote2 g2 s2 diff summary
            (new_CommitCache t0
               (disk (cache_after (generateCommitMessage remote1 g1 s1 diff summary st))) w2 dir2)))
           = suggestion_of (returned (generateCommitMessage remote1 g1 s1 diff summary st))
        \<and> requests (generateCommitMessage remote2 g2 s2 diff summary
            (new_CommitCache t0
               (disk (cache_after (generateCommitMessage remote1 g1 s1 diff summary st))) w2 dir2)) = 0"
  proof
    assume h: "fst (CommitCache_get g1 (sha1_hex diff) st) = None \<and> well_keyed st \<and> distinct_keys st
        \<and> writable st \<and> t0 - s1 < CACHE_MAX_AGE \<and> g2 - s1 \<le> CACHE_MAX_AGE"
    then have miss: "fst (CommitCache_get g1 (sha1_hex diff) st) = None" and keyed: "well_keyed st"
      and dist: "distinct_keys st" and w: "writable st" and at_load: "t0 - s1 < CACHE_MAX_AGE"
      and window: "g2 - s1 \<le> CACHE_MAX_AGE" by simp_all
    from reload_then_hit[OF miss keyed dist w at_load window]
    show "suggestion_of (returned (generateCommitMessage remote2 g2 s2 diff summary
            (new_CommitCache t0
               (disk (cache_after (generateCommitMessage remote1 g1 s1 diff summary st))) w2 dir2)))
           = suggestion_of (returned (generateCommitMessage remote1 g1 s1 diff summary st))
        \<and> requests (generateCommitMessage remote2 g2 s2 diff summary
            (new_CommitCache t0
               (disk (cache_after (generateCommitMessage remote1 g1 s1 diff summary st))) w2 dir2)) = 0" .
  qed
qed

text \<open>
  The theorem at the diff \<open>+x\<close> and an empty cache: the first call, against an endpoint
  that is down, stores its result at time 20; a second call at time 30 returns the same
  suggestion without a request, although its endpoint would answer, and so does a second
  call made by a process that loaded the cache file at time 25.
\<close>

theorem repeated_call_within_ttl_witness:
  "fst (CommitCache_get 10 (sha1_hex ''+x'') ex_empty) = None
   \<and> 30 - 20 \<le> CACHE_MAX_AGE
   \<and> suggestion_of (returned (generateCommitMessage unlabelled_reply 30 40 ''+x'' None
         (cache_after (generateCommitMessage server_down 10 20 ''+x'' None ex_empty))))
       = suggestion_of (returned (generateCommitMessage server_down 10 20 ''+x'' None ex_empty))
   \<and> requests (generateCommitMessage unlabelled_reply 30 40 ''+x'' None
         (cache_after (generateCommitMessage server_down 10 20 ''+x'' None ex_empty))) = 0
   \<and> well_keyed ex_empty \<and> distinct_keys ex_empty \<and> writable ex_empty
   \<and> 25 - 20 < CACHE_MAX_AGE
   \<and> suggestion_of (returned (generateCommitMessage unlabelled_reply 30 40 ''+x'' None
         (new_CommitCache 25
            (disk (cache_after (generateCommitMessage server_down 10 20 ''+x'' None ex_empty)))
            True ''repo'')))
       = suggestion_of (returned (generateCommitMessage server_down 10 20 ''+x'' None ex_empty))
   \<and> requests (generateCommitMessage unlabelled_reply 30 40 ''+x'' None
         (new_CommitCache 25
            (disk (cache_after (generateCommitMessage server_down 10 20 ''+x'' None ex_empty)))
            True ''repo'')) = 0"
proof -
  have miss: "fst (CommitCache_get 10 (sha1_hex ''+x'') ex_empty) = None"
    by (simp add: CommitCache_get_def ex_empty_def)
  have window: "(30::int) - 20 \<le> CACHE_MAX_AGE"
    by (simp add: CACHE_MAX_AGE_def)
  have at_load: "(25::int) - 20 < CACHE_MAX_AGE"
    by (simp add: CACHE_MAX_AGE_def)
  have inv: "well_keyed ex_empty" "distinct_keys ex_empty" "writable ex_empty"
    by (simp_all add: well_keyed_def distinct_keys_def ex_empty_def)
  note inst = repeated_call_within_ttl[where ?remote1.0 = server_down and ?g1.0 = 10 and ?s1.0 = 20
      and diff = "''+x''" and summary = None and st = ex_empty and ?g2.0 = 30
      and ?remote2.0 = unlabelled_reply and ?s2.0 = 40 and ?t0.0 = 25 and ?w2.0 = True
      and ?dir2.0 = "''repo''"]
  from inst miss inv at_load window
  have reloaded: "suggestion_of (returned (generateCommitMessage unlabelled_reply 30 40 ''+x'' None
         (new_CommitCache 25
            (disk (cache_after (generateCommitMessage server_down 10 20 ''+x'' None ex_empty)))
            True ''repo'')))
       = suggestion_of (returned (generateCommitMessage server_down 10 20 ''+x'' None ex_empty))
   \<and> requests (generateCommitMessage unlabelled_reply 30 40 ''+x'' None
         (new_CommitCache 25
            (disk (cache_after (generateCommitMessage server_down 10 20 ''+x'' None ex_empty)))
            True ''repo'')) = 0"
    by blast
  from inst have "\<exists>e. map_of (cache (cache_after (generateCommitMessage server_down 10 20 ''+x'' None ex_empty)))
              (hashDiff (sha1_hex ''+x'')) = Some e
      \<and> (fst (CommitCache_get 10 (sha1_hex ''+x'') ex_empty) = None \<longrightarrow> timestamp e = 20)
      \<and> (30 - timestamp e \<le> CACHE_MAX_AGE \<longrightarrow>
           suggestion_of (returned (generateCommitMessage unlabelled_reply 30 40 ''+x'' None
               (cache_after (generateCommitMessage server_down 10 20 ''+x'' None ex_empty))))
             = suggestion_of (returned (generateCommitMessage server_down 10 20 ''+x'' None ex_empty))
         \<and> requests (generateCommitMessage unlabelled_reply 30 40 ''+x'' None
               (cache_after (generateCommitMessage server_down 10 20 ''+x'' None ex_empty))) = 0)"
    by (rule conjunct1)
  then show ?thesis
  proof (elim exE conjE)
    fix e
    assume stamp: "fst (CommitCache_get 10 (sha1_hex ''+x'') ex_empty) = None \<longrightarrow> timestamp e = 20"
      and again: "30 - timestamp e \<le> CACHE_MAX_AGE \<longrightarrow>
       suggestion_of (returned (generateCommitMessage unlabelled_reply 30 40 ''+x'' None
         (cache_after (generateCommitMessage server_down 10 20 ''+x'' None ex_empty))))
       = suggestion_of (returned (generateCommitMessage server_down 10 20 ''+x'' None ex_empty))
       \<and> requests (generateCommitMessage unlabelled_reply 30 40 ''+x'' None
         (cache_after (generateCommitMessage server_down 10 20 ''+x'' None ex_empty))) = 0"
    from stamp miss have "timestamp e = 20" by (rule mp)
    with window have "30 - timestamp e \<le> CACHE_MAX_AGE" by simp
    with again have "suggestion_of (returned (generateCommitMessage unlabelled_reply 30 40 ''+x'' None
         (cache_after (generateCommitMessage server_down 10 20 ''+x'' None ex_empty))))
       = suggestion_of (returned (generateCommitMessage server_down 10 20 ''+x'' None ex_empty))
       \<and> requests (generateCommitMessage unlabelled_reply 30 40 ''+x'' None
         (cache_after (generateCommitMessage server_down 10 20 ''+x'' None ex_empty))) = 0"
      by (rule mp)
    with miss window inv at_load reloaded show ?thesis by (intro conjI) (simp_all only: simp_thms)
  qed
qed

subsection \<open>C4: messages have at most 70 characters\<close>

text \<open>
  Claim C4. A message \<open>parseResponse\<close> returns is the parsed message, cut to its first 67
  characters followed by \<open>...\<close> when it is longer than 70, and so has at most 70
  characters. Every message \<open>generateMessage\<close> builds, for any feature vector, any intent
  string and any summary, has at most 70 characters with no truncation, and so has every
  message a call of \<open>generateCommitMessage\<close> computes afresh; a call that starts from a
  cache whose messages have at most 70 characters returns such a message, also on a cache
  hit, and leaves such a cache. The file count is a count
  that a JavaScript number holds exactly (at most \<open>Number.MAX_SAFE_INTEGER\<close>), which is
  where the template literal prints its decimal digits.
\<close>

theorem message_at_most_70:
  "(\<forall>s. parseResponse response = Inr s \<longrightarrow>
        message s = (let m = snd (parse_lines (split_on newline (trim response)) ([], []))
                     in if length m > 70 then take 67 m @ ''...'' else m)
        \<and> length (message s) \<le> 70)
   \<and> ((case total_files (or_empty summary) of None \<Rightarrow> True | Some n \<Rightarrow> n \<le> MAX_SAFE_INTEGER) \<longrightarrow>
        length (generateMessage analysis i summary) \<le> 70
        \<and> (\<forall>r. returned (generateCommitMessage remote g s diff summary st) = Fresh r \<longrightarrow>
               length (message r) \<le> 70)
        \<and> (bounded_messages st \<longrightarrow>
               length (message (suggestion_of
                 (returned (generateCommitMessage remote g s diff summary st)))) \<le> 70
               \<and> bounded_messages (cache_after (generateCommitMessage remote g s diff summary st))))"
proof (intro conjI allI impI)
  fix s assume p: "parseResponse response = Inr s"
  from parseResponse_message[OF p]
  show "message s = (let m = snd (parse_lines (split_on newline (trim response)) ([], []))
                     in if length m > 70 then take 67 m @ ''...'' else m)" by blast
  from parseResponse_message[OF p] show "length (message s) \<le> 70" by blast
next
  assume b: "case total_files (or_empty summary) of None \<Rightarrow> True | Some n \<Rightarrow> n \<le> MAX_SAFE_INTEGER"
  from generateMessage_le_70[OF b] show "length (generateMessage analysis i summary) \<le> 70" .
next
  fix r
  assume b: "case total_files (or_empty summary) of None \<Rightarrow> True | Some n \<Rightarrow> n \<le> MAX_SAFE_INTEGER"
    and f: "returned (generateCommitMessage remote g s diff summary st) = Fresh r"
  from generate_fresh_cases[OF f] show "length (message r) \<le> 70"
  proof
    assume "\<exists>n. request_result (remote n) = Inr r"
    then obtain x where "parseResponse x = Inr r" using request_result_parsed by blast
    from parseResponse_message[OF this] show ?thesis by blast
  next
    assume "r = \<lparr>intent = determineIntent (analyzeDiff diff summary) summary,
               message = generateMessage (analyzeDiff diff summary)
                           (determineIntent (analyzeDiff diff summary) summary) summary\<rparr>"
    with generateMessage_le_70[OF b] show ?thesis by simp
  qed
next
  assume b: "case total_files (or_empty summary) of None \<Rightarrow> True | Some n \<Rightarrow> n \<le> MAX_SAFE_INTEGER"
    and inv: "bounded_messages st"
  from generate_bounded[OF b inv]
  show "length (message (suggestion_of
          (returned (generateCommitMessage remote g s diff summary st)))) \<le> 70" by blast
next
  assume b: "case total_files (or_empty summary) of None \<Rightarrow> True | Some n \<Rightarrow> n \<le> MAX_SAFE_INTEGER"
    and inv: "bounded_messages st"
  from generate_bounded[OF b inv]
  show "bounded_messages (cache_after (generateCommitMessage remote g s diff summary st))" by blast
qed

text \<open>
  The theorem at a reply whose message has 80 characters, and at the Feature template for
  a summary of 1234567 files.
\<close>

theorem message_at_most_70_witness:
  "parseResponse ex_long_reply
     = Inr \<lparr>intent = ''Feature'', message = replicate 67 (CHR ''a'') @ ''...''\<rparr>
   \<and> length (replicate 67 (CHR ''a'') @ ''...'') \<le> 70
   \<and> 1234567 \<le> MAX_SAFE_INTEGER
   \<and> generateMessage ex_analysis ''Feature'' (Some \<lparr>total_files = Some 1234567, renamed = None\<rparr>)
        = ''add new functionality to 1234567 files''
   \<and> length (generateMessage ex_analysis ''Feature''
                (Some \<lparr>total_files = Some 1234567, renamed = None\<rparr>)) \<le> 70
   \<and> bounded_messages ex_empty
   \<and> length (message (suggestion_of (returned (generateCommitMessage server_down 10 20 ''+x''
                (Some \<lparr>total_files = Some 1234567, renamed = None\<rparr>) ex_empty)))) \<le> 70"
proof -
  have safe: "1234567 \<le> MAX_SAFE_INTEGER"
    by (simp add: MAX_SAFE_INTEGER_def)
  have shown: "show_nat 1234567 = ''1234567''"
    by (simp add: show_nat.simps digit_char_def)
  have built: "generateMessage ex_analysis ''Feature'' (Some \<lparr>total_files = Some 1234567, renamed = None\<rparr>)
        = ''add new functionality to 1234567 files''"
    by (simp add: generateMessage_def or_empty_def ex_analysis_def show_count_def shown)
  note inst = message_at_most_70[of ex_long_reply "Some \<lparr>total_files = Some 1234567, renamed = None\<rparr>"
         ex_analysis "''Feature''" server_down 10 20 "''+x''" ex_empty]
  from inst parse_long_reply
  have cut: "length (message \<lparr>intent = ''Feature'', message = replicate 67 (CHR ''a'') @ ''...''\<rparr>) \<le> 70"
    by blast
  have bound: "case total_files (or_empty (Some \<lparr>total_files = Some 1234567, renamed = None\<rparr>)) of
                 None \<Rightarrow> True | Some n \<Rightarrow> n \<le> MAX_SAFE_INTEGER"
    using safe by (simp add: or_empty_def)
  from inst bound
  have fits: "length (generateMessage ex_analysis ''Feature''
                (Some \<lparr>total_files = Some 1234567, renamed = None\<rparr>)) \<le> 70"
    by blast
  from cut have cut': "length (replicate 67 (CHR ''a'') @ ''...'') \<le> 70" by simp
  have inv: "bounded_messages ex_empty"
    by (simp add: bounded_messages_def ex_empty_def)
  from inst bound inv
  have whole: "length (message (suggestion_of (returned (generateCommitMessage server_down 10 20 ''+x''
                (Some \<lparr>total_files = Some 1234567, renamed = None\<rparr>) ex_empty)))) \<le> 70"
    by blast
  from parse_long_reply cut' safe built fits inv whole show ?thesis by (intro conjI)
qed

subsection \<open>C5: the order of the decision\<close>

text \<open>
  Claim C5. \<open>determineIntent\<close> decides by the first rule that applies: no changes at all
  gives Chore; else a bug-fix or test-fix signal gives Bug Fix; else a test signal gives
  Test; else a docs signal gives Documentation; else a refactor signal, a moved-code
  signal or more than twice as many removed as added lines gives Refactor; else a
  new-function, new-class, new-component or new-endpoint signal gives Feature; else a
  dependency or config signal gives Chore; else a style or whitespace-only signal gives
  Style; otherwise Update. In the feature vector \<open>analyzeDiff\<close> computes, "changes" means
  that the added and removed lines together are at least one.
\<close>

theorem determineIntent_precedence:
  "determineIntent analysis summary =
     (if \<not> hasChanges analysis then ''Chore''
      else if hasBugFix analysis \<or> hasTestFix analysis then ''Bug Fix''
      else if hasTestChange analysis then ''Test''
      else if hasDocsChange analysis then ''Documentation''
      else if hasRefactor analysis \<or> hasMovedCode analysis
              \<or> deletions analysis > 2 * additions analysis then ''Refactor''
      else if hasNewFunction analysis \<or> hasNewClass analysis \<or> hasNewComponent analysis
              \<or> hasNewEndpoint analysis then ''Feature''
      else if hasDependencyChange analysis \<or> hasConfigChange analysis then ''Chore''
      else if hasStyleChange analysis \<or> hasWhitespaceOnly analysis then ''Style''
      else ''Update'')
   \<and> hasChanges (analyzeDiff diff summary)
       = (additions (analyzeDiff diff summary) + deletions (analyzeDiff diff summary) > 0)"
  by (simp add: determineIntent_def analyzeDiff_def Let_def mult.commute)

text \<open>
  The theorem at a feature vector with a test signal, a docs signal and a new function
  (Test wins), and at the feature vector of the diff \<open>+x\<close> (no signal: Update).
\<close>

theorem determineIntent_precedence_witness:
  "determineIntent ex_analysis None = ''Test''
   \<and> determineIntent (analyzeDiff ''+x'' None) None = ''Update''
   \<and> hasChanges (analyzeDiff ''+x'' None)"
proof -
  from determineIntent_precedence[of ex_analysis None "''+x''"]
  have a: "determineIntent ex_analysis None = ''Test''"
    by (simp add: ex_analysis_def)
  from determineIntent_precedence[of "analyzeDiff ''+x'' None" None "''+x''"]
  have b: "determineIntent (analyzeDiff ''+x'' None) None = ''Update''
           \<and> hasChanges (analyzeDiff ''+x'' None)"
    by (simp add: analyzeDiff_plus_x)
  from a b show ?thesis by simp
qed

subsection \<open>C6: the cache key\<close>

text \<open>
  Claim C6. Two diffs that are equal after trimming surrounding whitespace get the same
  cache key, the 256-bit digest of the trimmed diff. \<open>hashDiff\<close> computes exactly that of
  the string it is handed, and handed the diffs \<open>+x\<close> and \<open>+x\<close> followed by a newline it
  gives one key, so that an entry stored for the first answers a lookup for the second, as
  in \<open>services/llm.ts\<close>. The orchestrator with the fallback hands it the SHA-1 digest of the
  untrimmed diff instead, and the trim never sees the diff: the two diffs are filed under
  the keys \<open>d9e4...\<close> and \<open>ed7c...\<close>. After a call for \<open>+x\<close> has stored its result, a call for
  \<open>+x\<close> followed by a newline misses the cache and sends three requests to the endpoint,
  where a second call for \<open>+x\<close> is answered from the cache and sends none.
\<close>

theorem trim_equal_diffs_miss_the_cache:
  "trim ''+x'' = trim (''+x'' @ [newline])
   \<and> hashDiff ''+x'' = hashDiff (''+x'' @ [newline])
   \<and> fst (CommitCache_get 30 (''+x'' @ [newline])
             (CommitCache_set 20 ''+x'' ''Update'' ''update code'' ex_empty))
        = Some \<lparr>intent = ''Update'', message = ''update code'', folder = ''repo''\<rparr>
   \<and> hashDiff (sha1_hex ''+x'')
        = ''d9e4ee4a8fa96cdfcfd07c76ef7a8139563bbc15f5bc3c646b36ab690bd59ff5''
   \<and> hashDiff (sha1_hex (''+x'' @ [newline]))
        = ''ed7cc760b1a2caa995ce9e508f3033812dac206d283bb6c07c28928f90e62dc3''
   \<and> map fst (cache after_plus_x)
        = [''d9e4ee4a8fa96cdfcfd07c76ef7a8139563bbc15f5bc3c646b36ab690bd59ff5'']
   \<and> fst (CommitCache_get 30 (sha1_hex (''+x'' @ [newline])) after_plus_x) = None
   \<and> requests (generateCommitMessage server_down 30 40 (''+x'' @ [newline]) None after_plus_x) = 3
   \<and> generateCommitMessage server_down 30 40 ''+x'' None after_plus_x
        = \<lparr>returned = FromCache \<lparr>intent = ''Update'', message = ''update code'', folder = ''repo''\<rparr>,
           requests = 0, sleeps = [], cache_after = after_plus_x\<rparr>"
proof (intro conjI)
  show "trim ''+x'' = trim (''+x'' @ [newline])" by (rule trim_plus_x)
  show "hashDiff ''+x'' = hashDiff (''+x'' @ [newline])" by (rule hashDiff_trim[OF trim_plus_x])
  have "(30::int) - 20 \<le> CACHE_MAX_AGE" by (simp add: CACHE_MAX_AGE_def)
  from trim_equal_hit[OF trim_plus_x this, of "''Update''" "''update code''" ex_empty]
  show "fst (CommitCache_get 30 (''+x'' @ [newline])
             (CommitCache_set 20 ''+x'' ''Update'' ''update code'' ex_empty))
        = Some \<lparr>intent = ''Update'', message = ''update code'', folder = ''repo''\<rparr>"
    by (simp add: ex_empty_def)
  show "hashDiff (sha1_hex ''+x'')
        = ''d9e4ee4a8fa96cdfcfd07c76ef7a8139563bbc15f5bc3c646b36ab690bd59ff5''"
    by (rule key_plus_x)
  show "hashDiff (sha1_hex (''+x'' @ [newline]))
        = ''ed7cc760b1a2caa995ce9e508f3033812dac206d283bb6c07c28928f90e62dc3''"
    by (rule key_plus_x_newline)
  show "map fst (cache after_plus_x)
        = [''d9e4ee4a8fa96cdfcfd07c76ef7a8139563bbc15f5bc3c646b36ab690bd59ff5'']"
    unfolding after_plus_x_def by code_simp
  show "fst (CommitCache_get 30 (sha1_hex (''+x'' @ [newline])) after_plus_x) = None"
    unfolding after_plus_x_def by code_simp
  show "requests (generateCommitMessage server_down 30 40 (''+x'' @ [newline]) None after_plus_x) = 3"
    unfolding after_plus_x_def by code_simp
  show "generateCommitMessage server_down 30 40 ''+x'' None after_plus_x
        = \<lparr>returned = FromCache \<lparr>intent = ''Update'', message = ''update code'', folder = ''repo''\<rparr>,
           requests = 0, sleeps = [], cache_after = after_plus_x\<rparr>"
    unfolding after_plus_x_def by code_simp
qed

subsection \<open>C7: a lookup evicts an expired entry\<close>

text \<open>
  Claim C7. When the entry stored for a diff is older than 30 days at the time of a
  lookup, \<open>get\<close> returns null, removes the entry from the map and calls \<open>saveCache\<close>, which
  rewrites the cache file from the map without the entry (unless the write fails, which
  \<open>saveCache\<close> only warns about). Afterwards no entry with that digest is in the history,
  and a later lookup finds nothing.
\<close>

theorem expired_entry_evicted:
  assumes stored: "map_of (cache st) (hashDiff diff) = Some entry"
      and expired: "now - timestamp entry > CACHE_MAX_AGE"
      and keyed: "well_keyed st"
  shows "fst (CommitCache_get now diff st) = None
       \<and> cache (snd (CommitCache_get now diff st)) = AList.delete (hashDiff diff) (cache st)
       \<and> map_of (cache (snd (CommitCache_get now diff st))) (hashDiff diff) = None
       \<and> (writable st \<longrightarrow> disk (snd (CommitCache_get now diff st))
              = Entries (map snd (AList.delete (hashDiff diff) (cache st))))
       \<and> (\<forall>e \<in> set (getHistory (snd (CommitCache_get now diff st))). hash e \<noteq> hashDiff diff)
       \<and> (\<forall>later. fst (CommitCache_get later diff (snd (CommitCache_get now diff st))) = None)"
proof -
  let ?st' = "snd (CommitCache_get now diff st)"
  have st': "?st' = saveCache (st\<lparr>cache := AList.delete (hashDiff diff) (cache st)\<rparr>)"
    using stored expired by (simp add: CommitCache_get_def Let_def)
  have r: "fst (CommitCache_get now diff st) = None"
    using stored expired by (simp add: CommitCache_get_def Let_def)
  have c: "cache ?st' = AList.delete (hashDiff diff) (cache st)"
    by (simp add: st')
  have m: "map_of (cache ?st') (hashDiff diff) = None"
    by (simp add: c map_of_delete_self)
  have d: "writable st \<longrightarrow> disk ?st' = Entries (map snd (AList.delete (hashDiff diff) (cache st)))"
    by (simp add: st' saveCache_disk)
  have k: "list_all (\<lambda>(k, e). hash e = k) (AList.delete (hashDiff diff) (cache st))"
    using keyed by (simp add: well_keyed_def well_keyed_delete)
  have h: "\<forall>e \<in> set (getHistory ?st'). hash e \<noteq> hashDiff diff"
  proof
    fix e assume "e \<in> set (getHistory ?st')"
    then have "e \<in> snd ` set (AList.delete (hashDiff diff) (cache st))"
      by (simp add: getHistory_def c)
    then obtain k' where in_al: "(k', e) \<in> set (AList.delete (hashDiff diff) (cache st))"
      by auto
    with k have "hash e = k'" by (auto simp: list_all_iff)
    moreover from in_al have "k' \<noteq> hashDiff diff"
      using delete_no_key[of "hashDiff diff" "cache st"] by force
    ultimately show "hash e \<noteq> hashDiff diff" by simp
  qed
  have l: "\<forall>later. fst (CommitCache_get later diff ?st') = None"
    using m by (simp add: CommitCache_get_def Let_def)
  from r c m d h l show ?thesis by blast
qed

text \<open>
  The theorem at the cache that holds the entry stored at time 0 for the diff \<open>+x\<close>, looked
  up one millisecond after the 30 days: the lookup returns null and empties the map and
  the file.
\<close>

theorem expired_entry_evicted_witness:
  "map_of (cache ex_cached) (hashDiff (sha1_hex ''+x'')) = Some ex_entry
   \<and> 2592000001 - timestamp ex_entry > CACHE_MAX_AGE
   \<and> well_keyed ex_cached
   \<and> writable ex_cached
   \<and> fst (CommitCache_get 2592000001 (sha1_hex ''+x'') ex_cached) = None
   \<and> cache (snd (CommitCache_get 2592000001 (sha1_hex ''+x'') ex_cached)) = []
   \<and> disk (snd (CommitCache_get 2592000001 (sha1_hex ''+x'') ex_cached)) = Entries []
   \<and> fst (CommitCache_get 2592000002 (sha1_hex ''+x'')
            (snd (CommitCache_get 2592000001 (sha1_hex ''+x'') ex_cached))) = None"
proof -
  have stored: "map_of (cache ex_cached) (hashDiff (sha1_hex ''+x'')) = Some ex_entry"
    by (simp add: ex_cached_def)
  have expired: "2592000001 - timestamp ex_entry > CACHE_MAX_AGE"
    by (simp add: ex_entry_def CACHE_MAX_AGE_def)
  have keyed: "well_keyed ex_cached"
    by (simp add: well_keyed_def ex_cached_def ex_entry_def)
  have w: "writable ex_cached"
    by (simp add: ex_cached_def)
  have gone: "AList.delete (hashDiff (sha1_hex ''+x'')) (cache ex_cached) = []"
    by (simp add: ex_cached_def)
  note inst = expired_entry_evicted[OF stored expired keyed]
  from inst have a: "fst (CommitCache_get 2592000001 (sha1_hex ''+x'') ex_cached) = None"
    by blast
  from inst gone have b: "cache (snd (CommitCache_get 2592000001 (sha1_hex ''+x'') ex_cached)) = []"
    by simp
  from inst w gone have c: "disk (snd (CommitCache_get 2592000001 (sha1_hex ''+x'') ex_cached)) = Entries []"
    by simp
  from inst have d: "fst (CommitCache_get 2592000002 (sha1_hex ''+x'')
            (snd (CommitCache_get 2592000001 (sha1_hex ''+x'') ex_cached))) = None"
    by blast
  from stored expired keyed w a b c d show ?thesis by (intro conjI)
qed

subsection \<open>C8: the history\<close>

text \<open>
  Claim C8, as amended. \<open>getHistory\<close> returns every entry that is in the map, each once,
  most recent timestamp first and entries of equal timestamp in the order in which they
  were inserted, and \<open>getStats\<close> counts every entry of the map; neither looks at the clock.
  What keeps expired entries out is the loading: right after the cache has been loaded at
  a time \<open>now\<close>, every entry of the history is younger than 30 days at \<open>now\<close>.
\<close>

theorem history_lists_the_map:
  "mset (getHistory st) = mset (map snd (cache st))
   \<and> sorted_wrt (\<lambda>a b. timestamp a \<ge> timestamp b) (getHistory st)
   \<and> (\<forall>t. filter (\<lambda>e. timestamp e = t) (getHistory st)
            = filter (\<lambda>e. timestamp e = t) (map snd (cache st)))
   \<and> size_stat (getStats st) = length (cache st)
   \<and> (\<forall>e \<in> set (getHistory (new_CommitCache now on_disk w dir)). now - timestamp e < CACHE_MAX_AGE)"
proof -
  have a: "mset (getHistory st) = mset (map snd (cache st))"
    by (simp add: getHistory_def)
  have "sorted (map (\<lambda>e. - timestamp e) (getHistory st))"
    unfolding getHistory_def by (rule sorted_sort_key)
  then have b: "sorted_wrt (\<lambda>a b. timestamp a \<ge> timestamp b) (getHistory st)"
    by (simp add: sorted_map)
  have c: "\<forall>t. filter (\<lambda>e. timestamp e = t) (getHistory st)
            = filter (\<lambda>e. timestamp e = t) (map snd (cache st))"
  proof
    fix t
    have "filter (\<lambda>e. - timestamp e = - t) (sort_key (\<lambda>e. - timestamp e) (map snd (cache st)))
          = filter (\<lambda>e. - timestamp e = - t) (map snd (cache st))"
      by (rule sort_key_stable)
    then show "filter (\<lambda>e. timestamp e = t) (getHistory st)
            = filter (\<lambda>e. timestamp e = t) (map snd (cache st))"
      by (simp add: getHistory_def)
  qed
  have d: "size_stat (getStats st) = length (cache st)"
    by (simp add: getStats_def)
  have e: "\<forall>e \<in> set (getHistory (new_CommitCache now on_disk w dir)). now - timestamp e < CACHE_MAX_AGE"
    using new_CommitCache_fresh[of now on_disk w dir] by (simp add: getHistory_def)
  from a b c d e show ?thesis by blast
qed

text \<open>
  The theorem at the cache that holds an entry of time 0 and one of time 50 (the newer one
  comes first), and at a cache loaded at time 100 from a file with the entry of time 0.
\<close>

theorem history_lists_the_map_witness:
  "getHistory ex_two = [ex_newer, ex_entry]
   \<and> mset (getHistory ex_two) = mset (map snd (cache ex_two))
   \<and> sorted_wrt (\<lambda>a b. timestamp a \<ge> timestamp b) (getHistory ex_two)
   \<and> size_stat (getStats ex_two) = 2
   \<and> getHistory (new_CommitCache 100 (Entries [ex_entry]) True ''repo'') = [ex_entry]
   \<and> 100 - timestamp ex_entry < CACHE_MAX_AGE"
proof -
  have two: "getHistory ex_two = [ex_newer, ex_entry]"
    by (simp add: getHistory_def ex_two_def ex_entry_def ex_newer_def)
  have loaded: "getHistory (new_CommitCache 100 (Entries [ex_entry]) True ''repo'') = [ex_entry]"
    by (simp add: getHistory_def new_CommitCache_def loadCache_def ex_entry_def CACHE_MAX_AGE_def)
  note inst = history_lists_the_map[of ex_two 100 "Entries [ex_entry]" True "''repo''"]
  from inst have a: "mset (getHistory ex_two) = mset (map snd (cache ex_two))" by blast
  from inst have b: "sorted_wrt (\<lambda>a b. timestamp a \<ge> timestamp b) (getHistory ex_two)" by blast
  from inst have "size_stat (getStats ex_two) = length (cache ex_two)" by blast
  then have c: "size_stat (getStats ex_two) = 2" by (simp add: ex_two_def)
  from inst have "\<forall>e \<in> set (getHistory (new_CommitCache 100 (Entries [ex_entry]) True ''repo'')).
                    100 - timestamp e < CACHE_MAX_AGE" by blast
  with loaded have d: "100 - timestamp ex_entry < CACHE_MAX_AGE" by simp
  from two a b c loaded d show ?thesis by (intro conjI)
qed

text \<open>
  Claim C8 as stated fails: an entry that was one millisecond short of 30 days when the
  cache was loaded is still in the history two milliseconds later, when it is older than
  30 days.
\<close>

theorem history_keeps_expired_entry:
  "getHistory (new_CommitCache 2591999999 (Entries [ex_entry]) True ''repo'') = [ex_entry]
   \<and> 2592000001 - timestamp ex_entry > CACHE_MAX_AGE"
  by (simp add: getHistory_def new_CommitCache_def loadCache_def ex_entry_def CACHE_MAX_AGE_def)

subsection \<open>C9: clearing the cache\<close>

text \<open>
  Claim C9, as amended. \<open>clear()\<close> removes every entry from the map, rewrites the cache
  file as an empty list and returns nothing; after it a lookup of any diff finds nothing.
  The number of entries removed is what \<open>clearCacheCommand\<close> reports: it reads the size
  before it clears, and when the cache is already empty it says so and does not call
  \<open>clear()\<close>.
\<close>

theorem clear_empties_cache:
  "fst (CommitCache_clear st) = Undefined
   \<and> cache (snd (CommitCache_clear st)) = []
   \<and> (\<forall>now diff. fst (CommitCache_get now diff (snd (CommitCache_clear st))) = None)
   \<and> (writable st \<longrightarrow> disk (snd (CommitCache_clear st)) = Entries [])
   \<and> clearCacheCommand st =
       (if cache st = [] then (AlreadyEmpty, st)
        else (Cleared (length (cache st)), snd (CommitCache_clear st)))"
  by (simp add: CommitCache_clear_def CommitCache_get_def clearCacheCommand_def getStats_def
        saveCache_disk Let_def)

text \<open>
  The theorem at the cache with one entry: the command reports one entry removed, and the
  entry's diff is no longer found.
\<close>

theorem clear_empties_cache_witness:
  "writable ex_cached
   \<and> fst (CommitCache_clear ex_cached) = Undefined
   \<and> cache (snd (CommitCache_clear ex_cached)) = []
   \<and> disk (snd (CommitCache_clear ex_cached)) = Entries []
   \<and> fst (CommitCache_get 10 (sha1_hex ''+x'') (snd (CommitCache_clear ex_cached))) = None
   \<and> clearCacheCommand ex_cached = (Cleared 1, snd (CommitCache_clear ex_cached))"
proof -
  have w: "writable ex_cached" by (simp add: ex_cached_def)
  have full: "cache ex_cached \<noteq> []" "length (cache ex_cached) = 1" by (simp_all add: ex_cached_def)
  note inst = clear_empties_cache[of ex_cached]
  from inst have a: "fst (CommitCache_clear ex_cached) = Undefined" by blast
  from inst have b: "cache (snd (CommitCache_clear ex_cached)) = []" by blast
  from inst w have c: "disk (snd (CommitCache_clear ex_cached)) = Entries []" by blast
  from inst have d: "fst (CommitCache_get 10 (sha1_hex ''+x'') (snd (CommitCache_clear ex_cached))) = None"
    by blast
  from inst full have e: "clearCacheCommand ex_cached = (Cleared 1, snd (CommitCache_clear ex_cached))"
    by simp
  from w a b c d e show ?thesis by (intro conjI)
qed

text \<open>
  Claim C9 as stated fails: \<open>clear()\<close> on a cache with one entry does not return the
  number 1; it returns no value.
\<close>

theorem clear_returns_no_count:
  "length (cache ex_cached) = 1
   \<and> fst (CommitCache_clear ex_cached) \<noteq> Number 1
   \<and> fst (CommitCache_clear ex_cached) = Undefined"
  by (simp add: CommitCache_clear_def ex_cached_def)

subsection \<open>C10: a cache hit carries the folder\<close>

text \<open>
  Claim C10. When the lookup of \<open>generateCommitMessage\<close> hits, the call returns the object
  that \<open>get\<close> built, unchanged: the intent, the message and the folder of the stored entry.
  When the lookup misses, the call returns a freshly built suggestion, which has an intent
  and a message only. The folder of an entry is the name of the working directory of the
  process that stored it.
\<close>

theorem cache_hit_carries_folder:
  "(\<forall>c. fst (CommitCache_get g (sha1_hex diff) st) = Some c \<longrightarrow>
        returned (generateCommitMessage remote g s diff summary st) = FromCache c
        \<and> (\<exists>e. map_of (cache st) (hashDiff (sha1_hex diff)) = Some e
               \<and> c = \<lparr>intent = intent e, message = message e, folder = folder e\<rparr>))
   \<and> (fst (CommitCache_get g (sha1_hex diff) st) = None \<longrightarrow>
        (\<exists>r. returned (generateCommitMessage remote g s diff summary st) = Fresh r))
   \<and> map_of (cache (CommitCache_set now d i m st)) (hashDiff d)
        = Some \<lparr>intent = i, message = m, folder = cwd_name st, hash = hashDiff d, timestamp = now\<rparr>"
proof (intro conjI allI impI)
  fix c assume h: "fst (CommitCache_get g (sha1_hex diff) st) = Some c"
  from generate_hit[OF h] show "returned (generateCommitMessage remote g s diff summary st) = FromCache c"
    by simp
  from h show "\<exists>e. map_of (cache st) (hashDiff (sha1_hex diff)) = Some e
               \<and> c = \<lparr>intent = intent e, message = message e, folder = folder e\<rparr>"
    by (auto simp: get_Some_iff)
next
  assume "fst (CommitCache_get g (sha1_hex diff) st) = None"
  from generate_miss[OF this] show "\<exists>r. returned (generateCommitMessage remote g s diff summary st) = Fresh r"
    by blast
next
  show "map_of (cache (CommitCache_set now d i m st)) (hashDiff d)
        = Some \<lparr>intent = i, message = m, folder = cwd_name st, hash = hashDiff d, timestamp = now\<rparr>"
    by (rule set_lookup)
qed

text \<open>
  The theorem at the cache that holds the entry for the diff \<open>+x\<close>, stored in the
  directory \<open>repo\<close>: a call for \<open>+x\<close> returns intent, message and \<open>repo\<close>; on the empty cache
  the call returns the fresh fallback suggestion.
\<close>

theorem cache_hit_carries_folder_witness:
  "fst (CommitCache_get 10 (sha1_hex ''+x'') ex_cached)
     = Some \<lparr>intent = ''Feature'', message = ''add x'', folder = ''repo''\<rparr>
   \<and> returned (generateCommitMessage server_down 10 20 ''+x'' None ex_cached)
        = FromCache \<lparr>intent = ''Feature'', message = ''add x'', folder = ''repo''\<rparr>
   \<and> fst (CommitCache_get 10 (sha1_hex ''+x'') ex_empty) = None
   \<and> (\<exists>r. returned (generateCommitMessage server_down 10 20 ''+x'' None ex_empty) = Fresh r)"
proof -
  have hit: "fst (CommitCache_get 10 (sha1_hex ''+x'') ex_cached)
     = Some \<lparr>intent = ''Feature'', message = ''add x'', folder = ''repo''\<rparr>"
    by (simp add: CommitCache_get_def Let_def ex_cached_def ex_entry_def CACHE_MAX_AGE_def)
  have miss: "fst (CommitCache_get 10 (sha1_hex ''+x'') ex_empty) = None"
    by (simp add: CommitCache_get_def ex_empty_def)
  from cache_hit_carries_folder[of 10 "''+x''" ex_cached server_down 20 None] hit
  have a: "returned (generateCommitMessage server_down 10 20 ''+x'' None ex_cached)
        = FromCache \<lparr>intent = ''Feature'', message = ''add x'', folder = ''repo''\<rparr>"
    by blast
  from cache_hit_carries_folder[of 10 "''+x''" ex_empty server_down 20 None] miss
  have b: "\<exists>r. returned (generateCommitMessage server_down 10 20 ''+x'' None ex_empty) = Fresh r"
    by blast
  from hit a miss b show ?thesis by (intro conjI)
qed

end
